theory Spec2Isabelle
  imports Main "HOL-Library.Finite_Map"
begin

section \<open>Constants of er.h and er.c\<close>

definition ER_SUCCESS :: int where [simp]: "ER_SUCCESS = 0"
definition ER_FAILURE :: int where [simp]: "ER_FAILURE = 1"

definition ER_DIRECTION_ENCODE :: int where [simp]: "ER_DIRECTION_ENCODE = 1"
definition ER_DIRECTION_REBUILD :: int where [simp]: "ER_DIRECTION_REBUILD = 2"
definition ER_DIRECTION_REMOVE :: int where [simp]: "ER_DIRECTION_REMOVE = 3"

definition ER_STATE_NULL :: int where [simp]: "ER_STATE_NULL = 0"
definition ER_STATE_CORRUPT :: int where [simp]: "ER_STATE_CORRUPT = 1"
definition ER_STATE_ENCODED :: int where [simp]: "ER_STATE_ENCODED = 2"

section \<open>The collaborators\<close>

text \<open>
  redset, shuffile, kvtree and MPI are libraries outside er.c. er.c only compares their
  return codes with the library's SUCCESS constant, so a collaborator's answer is a
  boolean (did it return SUCCESS), and the answers a call of the ER interface will get
  are an argument of that call. The descriptor types are opaque handles.
\<close>

datatype redset_type =
  REDSET_COPY_NULL | REDSET_COPY_SINGLE | REDSET_COPY_PARTNER | REDSET_COPY_XOR

type_synonym redset = nat
type_synonym mpi_comm = nat

record collab =
  redset_init_ok :: bool
  redset_finalize_ok :: bool
  shuffile_init_ok :: bool
  shuffile_finalize_ok :: bool
  redset_create_ok :: bool
  redset_created :: redset
  redset_delete_ok :: bool
  redset_apply_ok :: bool
  redset_filelist :: "string list"
  shuffile_create_ok :: bool
  shuffile_migrate_ok :: bool
  shuffile_remove_ok :: bool
  redset_recover_ok :: bool
  redset_recovered :: redset
  redset_unapply_ok :: bool

text \<open>
  Every call that leaves er.c is recorded, in program order, with its arguments.
  Modelled from the spec: er_err is defined in er_util.c, which is not among the
  sources; the specification says that a diagnostic is emitted, and the event ErErr
  records its message.
\<close>

datatype event =
    StateWrite string int
  | RedsetInit
  | ShuffileInit
  | ShuffileFinalize
  | RedsetFinalize
  | ErErr string
  | RedsetCreate redset_type mpi_comm string
  | RedsetDelete redset
  | RedsetApply "string list" string redset
  | RedsetFilelistGet string redset
  | ShuffileCreate "string list" string
  | ShuffileMigrate string
  | ShuffileRemove string
  | RedsetRecover string
  | RedsetUnapply string redset
  | Unlink string

section \<open>Communicators and storage\<close>

text \<open>
  The pair (comm_world, comm_store) a set is created with is modelled by the layout of
  the world: one entry per rank of comm_world, in rank order, giving the storage group
  that rank belongs to and its rank in its comm_store. rank_world is the rank of the
  calling process. The operations on the state file are collective: every rank of
  comm_world executes them, and the model applies the effect of all ranks.
\<close>

record proc =
  store_group :: nat
  rank_store :: int

record erset =
  comm_world :: "proc list"
  rank_world :: nat

text \<open>
  A file written by kvtree_write_file holds a tree of key/value pairs; the state file
  holds integers only. Each storage group has its own files.
\<close>

type_synonym kvfile = "(string \<times> int) list"
type_synonym disk = "nat \<Rightarrow> string \<Rightarrow> kvfile option"

section \<open>The two registries\<close>

text \<open>
  er_schemes and er_sets are kvtree pointers: NULL before ER_Init and after ER_Finalize
  (kvtree_delete resets the pointer). Under the key SCHEMES (or SETS) the tree maps an
  integer id to the record of that handle. The kvtree functions accept a NULL tree: a
  lookup in it finds nothing, an insertion into it stores nothing and its size is 0.
\<close>

type_synonym 'v kvtree = "(int, 'v) fmap option"

definition kvtree_new :: "'v kvtree" where
  "kvtree_new = Some fmempty"

definition kvtree_get_kv_int :: "'v kvtree \<Rightarrow> int \<Rightarrow> 'v option" where
  "kvtree_get_kv_int h k = (case h of None \<Rightarrow> None | Some m \<Rightarrow> fmlookup m k)"

definition kvtree_set_kv_int :: "'v kvtree \<Rightarrow> int \<Rightarrow> 'v \<Rightarrow> 'v kvtree" where
  "kvtree_set_kv_int h k v = (case h of None \<Rightarrow> None | Some m \<Rightarrow> Some (fmupd k v m))"

definition kvtree_unset_kv_int :: "'v kvtree \<Rightarrow> int \<Rightarrow> 'v kvtree" where
  "kvtree_unset_kv_int h k = (case h of None \<Rightarrow> None | Some m \<Rightarrow> Some (fmdrop k m))"

definition kvtree_size :: "'v kvtree \<Rightarrow> int" where
  "kvtree_size h = (case h of None \<Rightarrow> 0 | Some m \<Rightarrow> int (fcard (fmdom m)))"

text \<open>
  A scheme record holds the pointer PTR to its redundancy descriptor. A set record holds
  NAME, DIRECTION and STRUCT, which ER_Create stores in every record it makes, SCHEME,
  which it stores for direction ENCODE only, and the keys of the FILE hash in the order
  in which kvtree iterates over them. ER_Create and ER_Add are the only writers of
  er_sets, so the kvtree_util_get calls for NAME, DIRECTION, STRUCT and PTR succeed on
  every record, and the branches for their failure are not represented.
\<close>

record scheme_rec =
  PTR :: redset

record set_rec =
  NAME :: string
  DIRECTION :: int
  STRUCT :: erset
  SCHEME :: "int option"
  FILE :: "string list"

record er_state =
  er_scheme_counter :: int
  er_set_counter :: int
  er_schemes :: "scheme_rec kvtree"
  er_sets :: "set_rec kvtree"
  files :: disk
  trace :: "event list"

text \<open>The state of a process at program start: the static initialisers of er.c.\<close>

definition er_start :: "disk \<Rightarrow> er_state" where
  "er_start d = \<lparr>er_scheme_counter = 0, er_set_counter = 0, er_schemes = None,
     er_sets = None, files = d, trace = []\<rparr>"

definition emit :: "event \<Rightarrow> er_state \<Rightarrow> er_state" where
  "emit e s = s\<lparr>trace := trace s @ [e]\<rparr>"

section \<open>Paths\<close>

text \<open>snprintf into a buffer of 1024 bytes keeps at most 1023 characters.\<close>

function string_of_nat :: "nat \<Rightarrow> string" where
  "string_of_nat n =
     (if n < 10 then [char_of (48 + n)]
      else string_of_nat (n div 10) @ [char_of (48 + n mod 10)])"
  by pat_completeness auto
termination
  by (relation "measure id") auto

definition build_er_path :: "string \<Rightarrow> string" where
  "build_er_path path = take 1023 (path @ ''.er'')"

definition build_shuffile_path :: "string \<Rightarrow> string" where
  "build_shuffile_path path = take 1023 (path @ ''.shuffile'')"

definition build_redset_path :: "string \<Rightarrow> nat \<Rightarrow> string" where
  "build_redset_path path rank = take 1023 (path @ ''.'' @ string_of_nat rank)"

section \<open>The state file\<close>

text \<open>
  er_state_write: the leader of each storage group (rank 0 of comm_store) writes a tree
  with the single entry STATE to the state file of its group; then all ranks meet at a
  barrier. The result of kvtree_write_file is not looked at by er.c; the write is taken
  to succeed.
\<close>

definition er_state_write_rank :: "string \<Rightarrow> int \<Rightarrow> proc \<Rightarrow> disk \<Rightarrow> disk" where
  "er_state_write_rank path state p d =
     (if rank_store p = 0
      then d(store_group p := (d (store_group p))(build_er_path path \<mapsto> [(''STATE'', state)]))
      else d)"

definition er_state_write :: "proc list \<Rightarrow> string \<Rightarrow> int \<Rightarrow> er_state \<Rightarrow> er_state" where
  "er_state_write world path state s =
     emit (StateWrite path state)
       (s\<lparr>files := fold (er_state_write_rank path state) world (files s)\<rparr>)"

text \<open>
  er_state_read, lines 79 to 95: the value a rank holds before the ranks agree. A rank
  that is not a leader keeps ER_STATE_NULL; a leader reads the file into an empty tree
  (which stays empty when the file cannot be read) and takes STATE from it (keeping
  ER_STATE_NULL when there is no such key).
\<close>

definition er_state_read_local :: "disk \<Rightarrow> string \<Rightarrow> proc \<Rightarrow> int" where
  "er_state_read_local d path p =
     (if rank_store p = 0 then
        (let data = (case d (store_group p) (build_er_path path) of
                       None \<Rightarrow> [] | Some f \<Rightarrow> f)
         in case map_of data ''STATE'' of None \<Rightarrow> ER_STATE_NULL | Some v \<Rightarrow> v)
      else ER_STATE_NULL)"

text \<open>Lines 110 to 114: a rank with a value offers its own rank, the others the size.\<close>

definition valid_rank :: "nat \<Rightarrow> nat \<Rightarrow> int \<Rightarrow> nat" where
  "valid_rank ranks_world rank state =
     (if state \<noteq> ER_STATE_NULL then rank else ranks_world)"

text \<open>
  MPI_Allreduce with MPI_MIN gives every rank the least of the contributions;
  MPI_Bcast gives every rank the value of the root. The result is the state that rank
  r holds when er_state_read returns.
\<close>

definition er_state_read :: "proc list \<Rightarrow> disk \<Rightarrow> string \<Rightarrow> nat \<Rightarrow> int" where
  "er_state_read world d path r =
     (let states = map (er_state_read_local d path) world;
          ranks_world = length world;
          valid = map (\<lambda>i. valid_rank ranks_world i (states ! i)) [0..<ranks_world];
          lowest_rank = Min (set valid)
      in if lowest_rank < ranks_world then states ! lowest_rank else states ! r)"

section \<open>ER_Init and ER_Finalize\<close>

definition ER_Init :: "collab \<Rightarrow> er_state \<Rightarrow> int \<times> er_state" where
  "ER_Init c s =
     (let s1 = s\<lparr>er_schemes := kvtree_new, er_sets := kvtree_new\<rparr>;
          s2 = emit RedsetInit s1;
          rc1 = (if \<not> redset_init_ok c then ER_FAILURE else ER_SUCCESS);
          s3 = emit ShuffileInit s2;
          rc2 = (if \<not> shuffile_init_ok c then ER_FAILURE else rc1)
      in (rc2, s3))"

definition ER_Finalize :: "collab \<Rightarrow> er_state \<Rightarrow> int \<times> er_state" where
  "ER_Finalize c s =
     (let (rc1, s1) =
            (if kvtree_size (er_schemes s) > 0
             then (ER_FAILURE, emit (ErErr ''ER_Finalize called before schemes freed'') s)
             else (ER_SUCCESS, s));
          (rc2, s2) =
            (if kvtree_size (er_sets s1) > 0
             then (ER_FAILURE, emit (ErErr ''ER_Finalize called before sets freed'') s1)
             else (rc1, s1));
          s3 = s2\<lparr>er_schemes := None, er_sets := None\<rparr>;
          s4 = emit ShuffileFinalize s3;
          rc3 = (if \<not> shuffile_finalize_ok c then ER_FAILURE else rc2);
          s5 = emit RedsetFinalize s4;
          rc4 = (if \<not> redset_finalize_ok c then ER_FAILURE else rc3)
      in (rc4, s5))"

section \<open>Schemes\<close>

text \<open>Lines 196 to 210: the encoding type of a pair of block counts, if supported.\<close>

definition encoding_type :: "int \<Rightarrow> int \<Rightarrow> redset_type option" where
  "encoding_type encoding_blocks erasure_blocks =
     (if erasure_blocks = 0 then Some REDSET_COPY_SINGLE
      else if encoding_blocks = erasure_blocks then Some REDSET_COPY_PARTNER
      else if erasure_blocks = 1 then Some REDSET_COPY_XOR
      else None)"

text \<open>
  er_scheme_counter and er_set_counter are C ints that are advanced with ++. At INT_MAX
  the increment overflows; on the two's complement machines the library runs on the
  counter then holds INT_MIN, and the model writes this wrap-around out.
\<close>

definition int_incr :: "int \<Rightarrow> int" where
  "int_incr x = (if x = 2147483647 then - 2147483648 else x + 1)"

definition ER_Create_Scheme ::
    "collab \<Rightarrow> er_state \<Rightarrow> mpi_comm \<Rightarrow> string \<Rightarrow> int \<Rightarrow> int \<Rightarrow> int \<times> er_state" where
  "ER_Create_Scheme c s comm failure_domain encoding_blocks erasure_blocks =
     (if encoding_blocks < 1 then (ER_FAILURE, s)
      else case encoding_type encoding_blocks erasure_blocks of
        None \<Rightarrow> (ER_FAILURE, s)
      | Some t \<Rightarrow>
          (let s1 = emit (RedsetCreate t comm failure_domain) s in
           if redset_create_ok c then
             (let s2 = s1\<lparr>er_scheme_counter := int_incr (er_scheme_counter s1)\<rparr>;
                  s3 = s2\<lparr>er_schemes := kvtree_set_kv_int (er_schemes s2)
                            (er_scheme_counter s2) \<lparr>PTR = redset_created c\<rparr>\<rparr>
              in (er_scheme_counter s3, s3))
           else (- 1, s1)))"

definition ER_Free_Scheme :: "collab \<Rightarrow> er_state \<Rightarrow> int \<Rightarrow> int \<times> er_state" where
  "ER_Free_Scheme c s scheme_id =
     (case kvtree_get_kv_int (er_schemes s) scheme_id of
        Some scheme \<Rightarrow>
          (let s1 = emit (RedsetDelete (PTR scheme)) s;
               rc = (if \<not> redset_delete_ok c then ER_FAILURE else ER_SUCCESS)
           in (rc, s1\<lparr>er_schemes := kvtree_unset_kv_int (er_schemes s1) scheme_id\<rparr>))
      | None \<Rightarrow> (ER_FAILURE, s))"

section \<open>Sets\<close>

text \<open>
  A char pointer that may be NULL is a string option. kvtree_set_kv_int returns the
  record already stored under the id, if there is one, and the kvtree_util_set calls
  overwrite NAME, DIRECTION and STRUCT in it.
\<close>

definition ER_Create ::
    "er_state \<Rightarrow> erset \<Rightarrow> string option \<Rightarrow> int \<Rightarrow> int \<Rightarrow> int \<times> er_state" where
  "ER_Create s setptr name direction scheme_id =
     (case name of
        None \<Rightarrow> (ER_FAILURE, s)
      | Some nm \<Rightarrow>
          if nm = [] then (ER_FAILURE, s)
          else if direction \<noteq> ER_DIRECTION_ENCODE \<and> direction \<noteq> ER_DIRECTION_REBUILD
                  \<and> direction \<noteq> ER_DIRECTION_REMOVE
          then (ER_FAILURE, s)
          else
            (let s1 = s\<lparr>er_set_counter := int_incr (er_set_counter s)\<rparr>;
                 old = (case kvtree_get_kv_int (er_sets s1) (er_set_counter s1) of
                          None \<Rightarrow> (None, []) | Some r \<Rightarrow> (SCHEME r, FILE r));
                 rec = \<lparr>NAME = nm, DIRECTION = direction, STRUCT = setptr,
                        SCHEME = (if direction = ER_DIRECTION_ENCODE then Some scheme_id
                                  else fst old),
                        FILE = snd old\<rparr>;
                 s2 = s1\<lparr>er_sets := kvtree_set_kv_int (er_sets s1) (er_set_counter s1) rec\<rparr>;
                 rc = (if direction = ER_DIRECTION_ENCODE
                          \<and> kvtree_get_kv_int (er_schemes s2) scheme_id = None
                       then ER_FAILURE else ER_SUCCESS)
             in if rc \<noteq> ER_SUCCESS
                then (- 1, s2\<lparr>er_sets := kvtree_unset_kv_int (er_sets s2) (er_set_counter s2)\<rparr>)
                else (er_set_counter s2, s2)))"

text \<open>
  Modelled from the spec: kvtree_set_kv and the iteration over a hash belong to kvtree,
  which is not among the sources. kvtree_set_kv (set, FILE, file) makes file a key of
  the FILE hash of the set, and ER_Dispatch reads the keys of that hash back with
  kvtree_elem_key: a key that is already there is found and nothing is inserted. For a
  new key the specification says that the path is appended to the ordered file list of
  the set, so a new key comes last in the order of iteration.
\<close>

definition kvtree_set_kv :: "string list \<Rightarrow> string \<Rightarrow> string list" where
  "kvtree_set_kv keys k = (if k \<in> set keys then keys else keys @ [k])"

definition ER_Add :: "er_state \<Rightarrow> int \<Rightarrow> string option \<Rightarrow> int \<times> er_state" where
  "ER_Add s set_id file =
     (case file of
        None \<Rightarrow> (ER_FAILURE, s)
      | Some f \<Rightarrow>
          if f = [] then (ER_FAILURE, s)
          else (case kvtree_get_kv_int (er_sets s) set_id of
            Some r \<Rightarrow>
              (ER_SUCCESS,
               s\<lparr>er_sets := kvtree_set_kv_int (er_sets s) set_id
                    (r\<lparr>FILE := kvtree_set_kv (FILE r) f\<rparr>)\<rparr>)
          | None \<Rightarrow> (ER_FAILURE, s)))"

text \<open>ER_Add called once for each path of a list, in the order of the list.\<close>

definition ER_Add_all :: "er_state \<Rightarrow> int \<Rightarrow> string list \<Rightarrow> er_state" where
  "ER_Add_all s set_id fs = fold (\<lambda>f s'. snd (ER_Add s' set_id (Some f))) fs s"

definition ER_Free :: "er_state \<Rightarrow> int \<Rightarrow> int \<times> er_state" where
  "ER_Free s set_id = (ER_SUCCESS, s\<lparr>er_sets := kvtree_unset_kv_int (er_sets s) set_id\<rparr>)"

section \<open>The three pipelines\<close>

definition er_encode ::
    "collab \<Rightarrow> erset \<Rightarrow> string list \<Rightarrow> string \<Rightarrow> redset \<Rightarrow> er_state \<Rightarrow> int \<times> er_state" where
  "er_encode c cs filenames path d s =
     (let shuffile_file = build_shuffile_path path;
          redset_path = build_redset_path path (rank_world cs);
          s1 = er_state_write (comm_world cs) path ER_STATE_CORRUPT s;
          s2 = emit (RedsetApply filenames redset_path d) s1;
          rc1 = (if \<not> redset_apply_ok c then ER_FAILURE else ER_SUCCESS);
          s3 = emit (RedsetFilelistGet redset_path d) s2;
          filenames2 = filenames @ redset_filelist c;
          s4 = emit (ShuffileCreate filenames2 shuffile_file) s3;
          rc2 = (if \<not> shuffile_create_ok c then ER_FAILURE else rc1);
          s5 = (if rc2 = ER_SUCCESS
                then er_state_write (comm_world cs) path ER_STATE_ENCODED s4 else s4)
      in (rc2, s5))"

definition er_rebuild :: "collab \<Rightarrow> erset \<Rightarrow> string \<Rightarrow> er_state \<Rightarrow> int \<times> er_state" where
  "er_rebuild c cs path s =
     (let state = er_state_read (comm_world cs) (files s) path (rank_world cs) in
      if state \<noteq> ER_STATE_ENCODED then (ER_FAILURE, s)
      else
        (let shuffile_file = build_shuffile_path path;
             redset_path = build_redset_path path (rank_world cs);
             s1 = er_state_write (comm_world cs) path ER_STATE_CORRUPT s;
             s2 = emit (ShuffileMigrate shuffile_file) s1;
             s3 = emit (RedsetRecover redset_path) s2;
             rc = (if \<not> redset_recover_ok c then ER_FAILURE else ER_SUCCESS);
             s4 = (if rc = ER_SUCCESS
                   then er_state_write (comm_world cs) path ER_STATE_ENCODED s3 else s3)
         in (rc, s4)))"

text \<open>
  unlink by the leader of each storage group, line 513. The event Unlink stands for this
  step of all ranks, as StateWrite stands for a call of er_state_write by all ranks.
\<close>

definition unlink_rank :: "string \<Rightarrow> proc \<Rightarrow> disk \<Rightarrow> disk" where
  "unlink_rank er_file p d =
     (if rank_store p = 0
      then d(store_group p := (d (store_group p))(er_file := None))
      else d)"

definition er_remove :: "collab \<Rightarrow> erset \<Rightarrow> string \<Rightarrow> er_state \<Rightarrow> int \<times> er_state" where
  "er_remove c cs path s =
     (let er_file = build_er_path path;
          shuffile_file = build_shuffile_path path;
          redset_path = build_redset_path path (rank_world cs);
          s1 = er_state_write (comm_world cs) path ER_STATE_CORRUPT s;
          s2 = emit (ShuffileRemove shuffile_file) s1;
          s3 = emit (RedsetRecover redset_path) s2;
          s4 = emit (RedsetUnapply redset_path (redset_recovered c)) s3;
          s5 = emit (RedsetDelete (redset_recovered c)) s4;
          s6 = emit (Unlink er_file)
                 (s5\<lparr>files := fold (unlink_rank er_file) (comm_world cs) (files s5)\<rparr>)
      in (ER_SUCCESS, s6))"

definition ER_Dispatch :: "collab \<Rightarrow> er_state \<Rightarrow> int \<Rightarrow> int \<times> er_state" where
  "ER_Dispatch c s set_id =
     (case kvtree_get_kv_int (er_sets s) set_id of
        Some r \<Rightarrow>
          (let path = take 1023 (NAME r @ ''.er'');
               direction = DIRECTION r;
               cs = STRUCT r
           in if direction = ER_DIRECTION_ENCODE then
                (let filenames = FILE r;
                     (rc, scheme_id) = (case SCHEME r of None \<Rightarrow> (ER_FAILURE, 0)
                                        | Some i \<Rightarrow> (ER_SUCCESS, i))
                 in case kvtree_get_kv_int (er_schemes s) scheme_id of
                      Some scheme \<Rightarrow>
                        if rc = ER_SUCCESS
                        then er_encode c cs filenames path (PTR scheme) s
                        else (rc, s)
                    | None \<Rightarrow> (ER_FAILURE, s))
              else if direction = ER_DIRECTION_REBUILD then er_rebuild c cs path s
              else er_remove c cs path s)
      | None \<Rightarrow> (ER_FAILURE, s))"

definition ER_Test :: "int \<Rightarrow> int" where
  "ER_Test set_id = 1"

definition ER_Wait :: "int \<Rightarrow> int" where
  "ER_Wait set_id = ER_SUCCESS"

text \<open>
  What the state file of a name holds on the storage of every leader of a world:
  leaders_hold world path d v says that each leader finds v at the path of the state file.
\<close>

definition leaders_hold :: "proc list \<Rightarrow> string \<Rightarrow> disk \<Rightarrow> kvfile option \<Rightarrow> bool" where
  "leaders_hold world path d v =
     (\<forall>p \<in> set world. rank_store p = 0 \<longrightarrow> d (store_group p) (build_er_path path) = v)"

text \<open>The events a call adds to the trace.\<close>

definition new_events :: "er_state \<Rightarrow> er_state \<Rightarrow> event list" where
  "new_events s s' = drop (length (trace s)) (trace s')"

section \<open>Sequences of calls\<close>

text \<open>A call of the interface with its arguments and the answers of the collaborators.\<close>

datatype call =
    Init collab
  | Finalize collab
  | Create_Scheme collab mpi_comm string int int
  | Free_Scheme collab int
  | Create erset "string option" int int
  | Add int "string option"
  | Dispatch collab int
  | Free int

fun exec :: "call \<Rightarrow> er_state \<Rightarrow> int \<times> er_state" where
  "exec (Init c) s = ER_Init c s"
| "exec (Finalize c) s = ER_Finalize c s"
| "exec (Create_Scheme c comm fd d e) s = ER_Create_Scheme c s comm fd d e"
| "exec (Free_Scheme c i) s = ER_Free_Scheme c s i"
| "exec (Create cs name dir i) s = ER_Create s cs name dir i"
| "exec (Add i f) s = ER_Add s i f"
| "exec (Dispatch c i) s = ER_Dispatch c s i"
| "exec (Free i) s = ER_Free s i"

text \<open>
  A call of ER_Create_Scheme or ER_Create is successful when it reaches its last return
  statement with rc equal to ER_SUCCESS: the arguments passed the checks and, for a
  scheme, redset_create returned REDSET_SUCCESS, for a set to be encoded, the scheme id
  was found.
\<close>

fun scheme_created :: "call \<Rightarrow> bool" where
  "scheme_created (Create_Scheme c comm fd d e) =
     (1 \<le> d \<and> encoding_type d e \<noteq> None \<and> redset_create_ok c)"
| "scheme_created _ = False"

fun set_created :: "call \<Rightarrow> er_state \<Rightarrow> bool" where
  "set_created (Create cs name dir i) s =
     (name \<noteq> None \<and> name \<noteq> Some [] \<and>
      (dir = ER_DIRECTION_ENCODE \<or> dir = ER_DIRECTION_REBUILD \<or> dir = ER_DIRECTION_REMOVE) \<and>
      (dir = ER_DIRECTION_ENCODE \<longrightarrow> kvtree_get_kv_int (er_schemes s) i \<noteq> None))"
| "set_created _ s = False"

text \<open>
  The calls that advance a counter. er_scheme_counter is advanced by the successful
  calls of ER_Create_Scheme only. er_set_counter is advanced by every call of ER_Create
  that passes the checks of the name and the direction, also by one that fails
  afterwards because the scheme is missing.
\<close>

fun set_counted :: "call \<Rightarrow> bool" where
  "set_counted (Create cs name dir i) =
     (name \<noteq> None \<and> name \<noteq> Some [] \<and>
      (dir = ER_DIRECTION_ENCODE \<or> dir = ER_DIRECTION_REBUILD \<or> dir = ER_DIRECTION_REMOVE))"
| "set_counted _ = False"

text \<open>The ids that the successful calls of a sequence return, in the order of the calls.\<close>

fun scheme_ids :: "call list \<Rightarrow> er_state \<Rightarrow> int list" where
  "scheme_ids [] s = []"
| "scheme_ids (a # as) s =
     (if scheme_created a then [fst (exec a s)] else []) @ scheme_ids as (snd (exec a s))"

fun set_ids :: "call list \<Rightarrow> er_state \<Rightarrow> int list" where
  "set_ids [] s = []"
| "set_ids (a # as) s =
     (if set_created a s then [fst (exec a s)] else []) @ set_ids as (snd (exec a s))"

section \<open>The scenarios of the specification\<close>

text \<open>Three ranks in the world, two storage groups: ranks 0 and 1, and rank 2.\<close>

definition three_ranks :: "proc list" where
  "three_ranks = [\<lparr>store_group = 0, rank_store = 0\<rparr>, \<lparr>store_group = 0, rank_store = 1\<rparr>,
                  \<lparr>store_group = 1, rank_store = 0\<rparr>]"

definition rank0 :: erset where
  "rank0 = \<lparr>comm_world = three_ranks, rank_world = 0\<rparr>"

definition all_ok :: collab where
  "all_ok = \<lparr>redset_init_ok = True, redset_finalize_ok = True, shuffile_init_ok = True,
     shuffile_finalize_ok = True, redset_create_ok = True, redset_created = 7,
     redset_delete_ok = True, redset_apply_ok = True, redset_filelist = [''ckpt.er.0.redset''],
     shuffile_create_ok = True, shuffile_migrate_ok = True, shuffile_remove_ok = True,
     redset_recover_ok = True, redset_recovered = 7, redset_unapply_ok = True\<rparr>"

text \<open>Collaborators that fail: one step only, or every step.\<close>

definition migrate_fails :: collab where
  "migrate_fails = all_ok\<lparr>shuffile_migrate_ok := False\<rparr>"

definition apply_fails :: collab where
  "apply_fails = all_ok\<lparr>redset_apply_ok := False\<rparr>"

definition recover_fails :: collab where
  "recover_fails = all_ok\<lparr>redset_recover_ok := False\<rparr>"

definition all_fail :: collab where
  "all_fail = \<lparr>redset_init_ok = False, redset_finalize_ok = False, shuffile_init_ok = False,
     shuffile_finalize_ok = False, redset_create_ok = False, redset_created = 7,
     redset_delete_ok = False, redset_apply_ok = False, redset_filelist = [],
     shuffile_create_ok = False, shuffile_migrate_ok = False, shuffile_remove_ok = False,
     redset_recover_ok = False, redset_recovered = 7, redset_unapply_ok = False\<rparr>"

text \<open>
  A run that mixes successful calls with an early return, a failing redset_create, a
  set whose scheme is missing, and frees of handles.
\<close>

definition demo_calls :: "call list" where
  "demo_calls =
     [Init all_ok,
      Create_Scheme all_ok 0 ''node'' 2 1,
      Create_Scheme all_ok 0 ''node'' 0 0,
      Create_Scheme all_fail 0 ''node'' 2 1,
      Free_Scheme all_ok 1,
      Create_Scheme all_ok 0 ''node'' 1 1,
      Create rank0 (Some ''ckpt'') ER_DIRECTION_ENCODE 1,
      Create rank0 (Some ''ckpt'') ER_DIRECTION_ENCODE 2,
      Free 2,
      Create rank0 (Some ''ckpt'') ER_DIRECTION_REBUILD 0]"

text \<open>
  A run that overflows the set counter without keeping a handle: after ER_Init, 2^31 - 1
  calls of ER_Create for an encode with a scheme that is not registered (each fails
  with -1, after the counter was advanced), then one call for a rebuild.
\<close>

definition wrap_calls :: "call list" where
  "wrap_calls =
     Init all_ok #
     replicate 2147483647 (Create rank0 (Some ''ckpt'') ER_DIRECTION_ENCODE 1) @
     [Create rank0 (Some ''ckpt'') ER_DIRECTION_REBUILD 0]"

definition no_files :: disk where
  "no_files = (\<lambda>g. Map.empty)"

text \<open>Every storage group holds a state file for the name ckpt with the given state.\<close>

definition state_files :: "int \<Rightarrow> disk" where
  "state_files st = (\<lambda>g. [''ckpt.er.er'' \<mapsto> [(''STATE'', st)]])"

text \<open>S5: the replica of group 0 says NULL, the replica of group 1 says ENCODED.\<close>

definition divergent_disk :: disk where
  "divergent_disk = (\<lambda>g. Map.empty)
     (0 := [''ckpt.er.er'' \<mapsto> [(''STATE'', ER_STATE_NULL)]],
      1 := [''ckpt.er.er'' \<mapsto> [(''STATE'', ER_STATE_ENCODED)]])"

text \<open>A process after ER_Init, and after it has registered the XOR scheme of S1.\<close>

definition s_init :: "disk \<Rightarrow> er_state" where
  "s_init d = snd (ER_Init all_ok (er_start d))"

definition s_scheme :: "disk \<Rightarrow> er_state" where
  "s_scheme d = snd (ER_Create_Scheme all_ok (s_init d) 0 ''node'' 2 1)"

text \<open>The set ckpt, opened in the given direction with scheme 1; it gets the id 1.\<close>

definition s_set :: "disk \<Rightarrow> int \<Rightarrow> er_state" where
  "s_set d dir = snd (ER_Create (s_scheme d) rank0 (Some ''ckpt'') dir 1)"

definition s_file :: "disk \<Rightarrow> er_state" where
  "s_file d = snd (ER_Add (s_set d ER_DIRECTION_ENCODE) 1 (Some ''data.0''))"

section \<open>Reconciliation of the state replicas\<close>

lemma er_state_read_all_null:
  assumes r: "r < length world"
    and allnull: "\<forall>i<length world. er_state_read_local d path (world ! i) = ER_STATE_NULL"
  shows "er_state_read world d path r = ER_STATE_NULL"
proof -
  let ?n = "length world"
  let ?states = "map (er_state_read_local d path) world"
  let ?valid = "map (\<lambda>i. valid_rank ?n i (?states ! i)) [0..<?n]"
  have all: "\<And>x. x \<in> set ?valid \<Longrightarrow> x = ?n"
    using allnull by (auto simp: valid_rank_def)
  have "valid_rank ?n r (?states ! r) = ?n"
    using r allnull by (simp add: valid_rank_def)
  moreover have "r \<in> set [0..<?n]" using r by simp
  ultimately have mem: "?n \<in> set ?valid"
    by (metis (no_types, lifting) image_eqI set_map)
  have "Min (set ?valid) = ?n"
  proof (rule Min_eqI)
    show "finite (set ?valid)" by simp
    show "\<And>y. y \<in> set ?valid \<Longrightarrow> ?n \<le> y" using all by blast
    show "?n \<in> set ?valid" by (rule mem)
  qed
  then show ?thesis
    using r allnull by (simp add: er_state_read_def Let_def)
qed

lemma er_state_read_lowest:
  assumes k: "k < length world"
    and nonnull: "er_state_read_local d path (world ! k) \<noteq> ER_STATE_NULL"
    and below: "\<forall>j<k. er_state_read_local d path (world ! j) = ER_STATE_NULL"
  shows "er_state_read world d path r = er_state_read_local d path (world ! k)"
proof -
  let ?n = "length world"
  let ?states = "map (er_state_read_local d path) world"
  let ?valid = "map (\<lambda>i. valid_rank ?n i (?states ! i)) [0..<?n]"
  have mem: "k \<in> set ?valid"
  proof -
    have "valid_rank ?n k (?states ! k) = k"
      using k nonnull by (simp add: valid_rank_def)
    moreover have "k \<in> set [0..<?n]" using k by simp
    ultimately show ?thesis by (metis (no_types, lifting) image_eqI set_map)
  qed
  have low: "\<And>x. x \<in> set ?valid \<Longrightarrow> k \<le> x"
  proof -
    fix x assume "x \<in> set ?valid"
    then obtain i where i: "i < ?n" and x: "x = valid_rank ?n i (?states ! i)" by auto
    show "k \<le> x"
    proof (cases "i < k")
      case True
      with below i k have "x = ?n" by (simp add: x valid_rank_def)
      with k show ?thesis by simp
    next
      case False
      with i k show ?thesis by (simp add: x valid_rank_def)
    qed
  qed
  have "Min (set ?valid) = k"
    by (rule Min_eqI) (use mem low in auto)
  then show ?thesis
    using k by (simp add: er_state_read_def Let_def)
qed

text \<open>
  C2. For every world and every content of the state files, er_state_read leaves on every
  rank r the value that the lowest world rank with a non-NULL local value holds, and
  ER_STATE_NULL when every rank holds ER_STATE_NULL. The local value of a rank is
  er_state_read_local: what a leader finds under STATE in the replica of its storage
  group, ER_STATE_NULL when the file or the key is missing, and ER_STATE_NULL on every
  rank that is not a leader.
\<close>

theorem er_state_read_reconciles:
  "r < length world \<Longrightarrow>
   ((\<forall>i<length world. er_state_read_local d path (world ! i) = ER_STATE_NULL)
      \<longrightarrow> er_state_read world d path r = ER_STATE_NULL) \<and>
   (\<forall>k<length world.
      er_state_read_local d path (world ! k) \<noteq> ER_STATE_NULL \<and>
      (\<forall>j<k. er_state_read_local d path (world ! j) = ER_STATE_NULL)
      \<longrightarrow> er_state_read world d path r = er_state_read_local d path (world ! k))"
  using er_state_read_all_null er_state_read_lowest by blast

lemma divergent_local_0:
  "er_state_read_local divergent_disk ''ckpt.er'' (three_ranks ! 0) = ER_STATE_NULL"
  by (simp add: er_state_read_local_def divergent_disk_def three_ranks_def build_er_path_def)

lemma divergent_local_1:
  "er_state_read_local divergent_disk ''ckpt.er'' (three_ranks ! 1) = ER_STATE_NULL"
  by (simp add: er_state_read_local_def divergent_disk_def three_ranks_def build_er_path_def)

lemma divergent_local_2:
  "er_state_read_local divergent_disk ''ckpt.er'' (three_ranks ! 2) = ER_STATE_ENCODED"
  by (simp add: er_state_read_local_def divergent_disk_def three_ranks_def build_er_path_def)

text \<open>Scenario S5: rank 1 reads ENCODED, the value of rank 2, the leader of group 1.\<close>

theorem er_state_read_reconciles_witness:
  "(1::nat) < length three_ranks \<and>
   er_state_read three_ranks divergent_disk ''ckpt.er'' 1 = ER_STATE_ENCODED"
proof -
  have r: "(1::nat) < length three_ranks" by (simp add: three_ranks_def)
  have k: "(2::nat) < length three_ranks" by (simp add: three_ranks_def)
  have below: "\<forall>j<2::nat.
      er_state_read_local divergent_disk ''ckpt.er'' (three_ranks ! j) = ER_STATE_NULL"
    using divergent_local_0 divergent_local_1 by (auto simp: less_Suc_eq numeral_2_eq_2)
  have nonnull:
    "er_state_read_local divergent_disk ''ckpt.er'' (three_ranks ! 2) \<noteq> ER_STATE_NULL"
    using divergent_local_2 by simp
  from er_state_read_reconciles [OF r, of divergent_disk "''ckpt.er''"] k below nonnull
  have "er_state_read three_ranks divergent_disk ''ckpt.er'' 1
          = er_state_read_local divergent_disk ''ckpt.er'' (three_ranks ! 2)"
    by blast
  with r divergent_local_2 show ?thesis by simp
qed

section \<open>Effects of the state file operations\<close>

lemma emit_simps [simp]:
  "trace (emit e s) = trace s @ [e]"
  "files (emit e s) = files s"
  "er_schemes (emit e s) = er_schemes s"
  "er_sets (emit e s) = er_sets s"
  "er_scheme_counter (emit e s) = er_scheme_counter s"
  "er_set_counter (emit e s) = er_set_counter s"
  by (simp_all add: emit_def)

lemma er_state_write_simps [simp]:
  "trace (er_state_write w path st s) = trace s @ [StateWrite path st]"
  "files (er_state_write w path st s) = fold (er_state_write_rank path st) w (files s)"
  "er_schemes (er_state_write w path st s) = er_schemes s"
  "er_sets (er_state_write w path st s) = er_sets s"
  "er_scheme_counter (er_state_write w path st s) = er_scheme_counter s"
  "er_set_counter (er_state_write w path st s) = er_set_counter s"
  by (simp_all add: er_state_write_def)

lemma new_events_append [simp]: "trace s' = trace s @ es \<Longrightarrow> new_events s s' = es"
  by (simp add: new_events_def)

lemma fold_write_keeps:
  "d g (build_er_path path) = Some [(''STATE'', st)] \<Longrightarrow>
   fold (er_state_write_rank path st) w d g (build_er_path path) = Some [(''STATE'', st)]"
  by (induction w arbitrary: d) (simp_all add: er_state_write_rank_def)

lemma fold_write_leader:
  "p \<in> set w \<Longrightarrow> rank_store p = 0 \<Longrightarrow>
   fold (er_state_write_rank path st) w d (store_group p) (build_er_path path)
     = Some [(''STATE'', st)]"
proof (induction w arbitrary: d)
  case Nil
  then show ?case by simp
next
  case (Cons q w)
  show ?case
  proof (cases "q = p")
    case True
    with Cons.prems have "er_state_write_rank path st q d (store_group p) (build_er_path path)
        = Some [(''STATE'', st)]"
      by (simp add: er_state_write_rank_def)
    then show ?thesis
      using fold_write_keeps [of "er_state_write_rank path st q d" "store_group p" path st w]
      by simp
  next
    case False
    with Cons show ?thesis by simp
  qed
qed

lemma leaders_hold_write:
  "leaders_hold w path (fold (er_state_write_rank path st) w d) (Some [(''STATE'', st)])"
  by (simp add: leaders_hold_def fold_write_leader)

lemma fold_unlink_keeps:
  "d g f = None \<Longrightarrow> fold (unlink_rank f) w d g f = None"
  by (induction w arbitrary: d) (simp_all add: unlink_rank_def)

lemma fold_unlink_leader:
  "p \<in> set w \<Longrightarrow> rank_store p = 0 \<Longrightarrow> fold (unlink_rank f) w d (store_group p) f = None"
proof (induction w arbitrary: d)
  case Nil
  then show ?case by simp
next
  case (Cons q w)
  show ?case
  proof (cases "q = p")
    case True
    with Cons.prems have "unlink_rank f q d (store_group p) f = None"
      by (simp add: unlink_rank_def)
    then show ?thesis
      using fold_unlink_keeps [of "unlink_rank f q d" "store_group p" f w] by simp
  next
    case False
    with Cons show ?thesis by simp
  qed
qed

lemma leaders_hold_unlink:
  "leaders_hold w path (fold (unlink_rank (build_er_path path)) w d) None"
  by (simp add: leaders_hold_def fold_unlink_leader)

section \<open>Results of the three pipelines\<close>

lemma er_encode_failure:
  assumes "\<not> redset_apply_ok c \<or> \<not> shuffile_create_ok c"
  shows "fst (er_encode c cs fs path d s) = ER_FAILURE"
    and "trace (snd (er_encode c cs fs path d s)) = trace s @
          [StateWrite path ER_STATE_CORRUPT,
           RedsetApply fs (build_redset_path path (rank_world cs)) d,
           RedsetFilelistGet (build_redset_path path (rank_world cs)) d,
           ShuffileCreate (fs @ redset_filelist c) (build_shuffile_path path)]"
    and "files (snd (er_encode c cs fs path d s))
           = fold (er_state_write_rank path ER_STATE_CORRUPT) (comm_world cs) (files s)"
  using assms by (auto simp add: er_encode_def Let_def)


lemma er_rebuild_refuse:
  "er_state_read (comm_world cs) (files s) path (rank_world cs) \<noteq> ER_STATE_ENCODED \<Longrightarrow>
   er_rebuild c cs path s = (ER_FAILURE, s)"
  by (simp add: er_rebuild_def Let_def)

lemma er_rebuild_failure:
  assumes "er_state_read (comm_world cs) (files s) path (rank_world cs) = ER_STATE_ENCODED"
    and "\<not> redset_recover_ok c"
  shows "fst (er_rebuild c cs path s) = ER_FAILURE"
    and "trace (snd (er_rebuild c cs path s)) = trace s @
          [StateWrite path ER_STATE_CORRUPT, ShuffileMigrate (build_shuffile_path path),
           RedsetRecover (build_redset_path path (rank_world cs))]"
    and "files (snd (er_rebuild c cs path s))
           = fold (er_state_write_rank path ER_STATE_CORRUPT) (comm_world cs) (files s)"
  using assms by (auto simp add: er_rebuild_def Let_def)

lemma er_remove_result:
  shows "fst (er_remove c cs path s) = ER_SUCCESS"
    and "trace (snd (er_remove c cs path s)) = trace s @
          [StateWrite path ER_STATE_CORRUPT, ShuffileRemove (build_shuffile_path path),
           RedsetRecover (build_redset_path path (rank_world cs)),
           RedsetUnapply (build_redset_path path (rank_world cs)) (redset_recovered c),
           RedsetDelete (redset_recovered c), Unlink (build_er_path path)]"
    and "files (snd (er_remove c cs path s))
           = fold (unlink_rank (build_er_path path)) (comm_world cs)
               (fold (er_state_write_rank path ER_STATE_CORRUPT) (comm_world cs) (files s))"
  by (auto simp add: er_remove_def Let_def)

lemma ER_Dispatch_encode:
  assumes "kvtree_get_kv_int (er_sets s) set_id = Some r"
    and "DIRECTION r = ER_DIRECTION_ENCODE"
    and "SCHEME r = Some i"
    and "kvtree_get_kv_int (er_schemes s) i = Some sch"
  shows "ER_Dispatch c s set_id
           = er_encode c (STRUCT r) (FILE r) (take 1023 (NAME r @ ''.er'')) (PTR sch) s"
  using assms by (simp add: ER_Dispatch_def Let_def)

lemma ER_Dispatch_rebuild:
  assumes "kvtree_get_kv_int (er_sets s) set_id = Some r"
    and "DIRECTION r = ER_DIRECTION_REBUILD"
  shows "ER_Dispatch c s set_id = er_rebuild c (STRUCT r) (take 1023 (NAME r @ ''.er'')) s"
  using assms by (simp add: ER_Dispatch_def Let_def)

lemma ER_Dispatch_remove:
  assumes "kvtree_get_kv_int (er_sets s) set_id = Some r"
    and "DIRECTION r = ER_DIRECTION_REMOVE"
  shows "ER_Dispatch c s set_id = er_remove c (STRUCT r) (take 1023 (NAME r @ ''.er'')) s"
  using assms by (simp add: ER_Dispatch_def Let_def)

section \<open>The scenarios, evaluated\<close>

lemma s_init_eq: "s_init d = \<lparr>er_scheme_counter = 0, er_set_counter = 0,
     er_schemes = Some fmempty, er_sets = Some fmempty, files = d,
     trace = [RedsetInit, ShuffileInit]\<rparr>"
  by (simp add: s_init_def ER_Init_def er_start_def all_ok_def emit_def kvtree_new_def)

lemma s_scheme_eq: "s_scheme d = \<lparr>er_scheme_counter = 1, er_set_counter = 0,
     er_schemes = Some (fmupd 1 \<lparr>PTR = 7\<rparr> fmempty),
     er_sets = Some fmempty, files = d,
     trace = [RedsetInit, ShuffileInit, RedsetCreate REDSET_COPY_XOR 0 ''node'']\<rparr>"
  by (simp add: s_scheme_def s_init_eq ER_Create_Scheme_def encoding_type_def all_ok_def
      emit_def kvtree_set_kv_int_def int_incr_def)

lemma s_set_eq:
  "dir = ER_DIRECTION_ENCODE \<or> dir = ER_DIRECTION_REBUILD \<or> dir = ER_DIRECTION_REMOVE \<Longrightarrow>
   s_set d dir = \<lparr>er_scheme_counter = 1, er_set_counter = 1,
     er_schemes = Some (fmupd 1 \<lparr>PTR = 7\<rparr> fmempty),
     er_sets = Some (fmupd 1 \<lparr>NAME = ''ckpt'', DIRECTION = dir, STRUCT = rank0,
        SCHEME = (if dir = ER_DIRECTION_ENCODE then Some 1 else None), FILE = []\<rparr> fmempty),
     files = d,
     trace = [RedsetInit, ShuffileInit, RedsetCreate REDSET_COPY_XOR 0 ''node'']\<rparr>"
  by (auto simp add: s_set_def s_scheme_eq ER_Create_def kvtree_set_kv_int_def
      kvtree_get_kv_int_def Let_def int_incr_def)

lemma s_file_eq:
  "s_file d = \<lparr>er_scheme_counter = 1, er_set_counter = 1,
     er_schemes = Some (fmupd 1 \<lparr>PTR = 7\<rparr> fmempty),
     er_sets = Some (fmupd 1 \<lparr>NAME = ''ckpt'', DIRECTION = ER_DIRECTION_ENCODE, STRUCT = rank0,
        SCHEME = Some 1, FILE = [''data.0'']\<rparr> fmempty),
     files = d,
     trace = [RedsetInit, ShuffileInit, RedsetCreate REDSET_COPY_XOR 0 ''node'']\<rparr>"
  by (simp add: s_file_def s_set_eq ER_Add_def kvtree_set_kv_int_def
      kvtree_get_kv_int_def kvtree_set_kv_def)

section \<open>What a read finds after a write\<close>

lemma er_state_read_local_leader:
  "rank_store p = 0 \<Longrightarrow> d (store_group p) (build_er_path path) = Some [(''STATE'', st)] \<Longrightarrow>
   er_state_read_local d path p = st"
  by (simp add: er_state_read_local_def)

lemma er_state_read_local_other:
  "rank_store p \<noteq> 0 \<Longrightarrow> er_state_read_local d path p = ER_STATE_NULL"
  by (simp add: er_state_read_local_def)

lemma er_state_read_local_absent:
  "d (store_group p) (build_er_path path) = None \<Longrightarrow>
   er_state_read_local d path p = ER_STATE_NULL"
  by (simp add: er_state_read_local_def)

lemma er_state_read_leaders_hold:
  assumes hold: "leaders_hold w path d (Some [(''STATE'', st)])"
    and st: "st \<noteq> ER_STATE_NULL"
    and leader: "\<exists>p \<in> set w. rank_store p = 0"
  shows "er_state_read w d path r = st"
proof -
  let ?P = "\<lambda>k. k < length w \<and> rank_store (w ! k) = 0"
  from leader obtain k0 where "?P k0" by (auto simp: in_set_conv_nth)
  define k where "k = (LEAST k. ?P k)"
  have k: "?P k" unfolding k_def using \<open>?P k0\<close> by (rule LeastI)
  have min: "\<And>j. j < k \<Longrightarrow> \<not> ?P j" unfolding k_def by (rule not_less_Least)
  have val: "er_state_read_local d path (w ! k) = st"
    using k hold by (intro er_state_read_local_leader) (auto simp: leaders_hold_def)
  have "\<forall>j<k. er_state_read_local d path (w ! j) = ER_STATE_NULL"
  proof (intro allI impI)
    fix j assume "j < k"
    with min k have "rank_store (w ! j) \<noteq> 0" by auto
    then show "er_state_read_local d path (w ! j) = ER_STATE_NULL"
      by (rule er_state_read_local_other)
  qed
  with er_state_read_lowest [of k w d path r] k val st show ?thesis by simp
qed

lemma er_state_read_leaders_absent:
  assumes hold: "leaders_hold w path d None" and r: "r < length w"
  shows "er_state_read w d path r = ER_STATE_NULL"
proof (rule er_state_read_all_null [OF r], intro allI impI)
  fix i assume "i < length w"
  show "er_state_read_local d path (w ! i) = ER_STATE_NULL"
  proof (cases "rank_store (w ! i) = 0")
    case True
    with hold \<open>i < length w\<close> show ?thesis
      by (intro er_state_read_local_absent) (auto simp: leaders_hold_def)
  next
    case False
    then show ?thesis by (rule er_state_read_local_other)
  qed
qed

lemma leaders_hold_state_files:
  "leaders_hold w ''ckpt.er'' (state_files st) (Some [(''STATE'', st)])"
  by (simp add: leaders_hold_def state_files_def build_er_path_def)

lemma three_ranks_leader: "\<exists>p \<in> set three_ranks. rank_store p = 0"
  by (simp add: three_ranks_def)

lemma read_state_files:
  "st \<noteq> ER_STATE_NULL \<Longrightarrow> er_state_read three_ranks (state_files st) ''ckpt.er'' r = st"
  using er_state_read_leaders_hold [OF leaders_hold_state_files _ three_ranks_leader] by simp

lemma er_rebuild_success:
  assumes "er_state_read (comm_world cs) (files s) path (rank_world cs) = ER_STATE_ENCODED"
    and "redset_recover_ok c"
  shows "fst (er_rebuild c cs path s) = ER_SUCCESS"
    and "trace (snd (er_rebuild c cs path s)) = trace s @
          [StateWrite path ER_STATE_CORRUPT, ShuffileMigrate (build_shuffile_path path),
           RedsetRecover (build_redset_path path (rank_world cs)),
           StateWrite path ER_STATE_ENCODED]"
    and "files (snd (er_rebuild c cs path s))
           = fold (er_state_write_rank path ER_STATE_ENCODED) (comm_world cs)
               (fold (er_state_write_rank path ER_STATE_CORRUPT) (comm_world cs) (files s))"
  using assms by (auto simp add: er_rebuild_def Let_def)


section \<open>Dispatch\<close>

text \<open>
  The order of the state writes. Whatever a dispatch calls, the write of CORRUPT comes
  first; a write of ENCODED happens only in an encode whose redset_apply and
  shuffile_create succeeded, or in a rebuild whose redset_recover succeeded; and an
  encode passes the keys of the FILE hash to redset_apply.
\<close>

lemma ER_Dispatch_corrupt_first:
  assumes "kvtree_get_kv_int (er_sets s) i = Some r"
  shows "new_events s (snd (ER_Dispatch c s i)) = [] \<or>
    (\<exists>es. new_events s (snd (ER_Dispatch c s i))
       = StateWrite (take 1023 (NAME r @ ''.er'')) ER_STATE_CORRUPT # es)"
  using assms
  by (auto simp: ER_Dispatch_def er_encode_def er_rebuild_def er_remove_def Let_def
      new_events_def split: option.splits)

lemma ER_Dispatch_encoded_after_success:
  assumes "kvtree_get_kv_int (er_sets s) i = Some r"
    and "StateWrite p ER_STATE_ENCODED \<in> set (new_events s (snd (ER_Dispatch c s i)))"
  shows "(DIRECTION r = ER_DIRECTION_ENCODE \<and> redset_apply_ok c \<and> shuffile_create_ok c) \<or>
    (DIRECTION r = ER_DIRECTION_REBUILD \<and> redset_recover_ok c)"
  using assms
  by (auto simp: ER_Dispatch_def er_encode_def er_rebuild_def er_remove_def Let_def
      new_events_def split: option.splits if_splits)


text \<open>
  C1. The claim says that a pipeline writes ENCODED only after every collaborator step
  has reported success. er_rebuild does not look at the result of shuffile_migrate: in
  the rebuild of ckpt below, shuffile_migrate fails and redset_recover succeeds, and
  ER_Dispatch returns ER_SUCCESS, its last event is the write of ENCODED, and the state
  files of both storage groups say ENCODED.
\<close>

theorem ER_Dispatch_rebuild_ignores_migrate:
  "\<not> shuffile_migrate_ok migrate_fails \<and>
   fst (ER_Dispatch migrate_fails (s_set (state_files ER_STATE_ENCODED) ER_DIRECTION_REBUILD) 1)
     = ER_SUCCESS \<and>
   new_events (s_set (state_files ER_STATE_ENCODED) ER_DIRECTION_REBUILD)
     (snd (ER_Dispatch migrate_fails (s_set (state_files ER_STATE_ENCODED) ER_DIRECTION_REBUILD) 1))
     = [StateWrite ''ckpt.er'' ER_STATE_CORRUPT, ShuffileMigrate ''ckpt.er.shuffile'',
        RedsetRecover (build_redset_path ''ckpt.er'' 0), StateWrite ''ckpt.er'' ER_STATE_ENCODED] \<and>
   files (snd (ER_Dispatch migrate_fails
        (s_set (state_files ER_STATE_ENCODED) ER_DIRECTION_REBUILD) 1)) 0 ''ckpt.er.er''
     = Some [(''STATE'', ER_STATE_ENCODED)] \<and>
   files (snd (ER_Dispatch migrate_fails
        (s_set (state_files ER_STATE_ENCODED) ER_DIRECTION_REBUILD) 1)) 1 ''ckpt.er.er''
     = Some [(''STATE'', ER_STATE_ENCODED)]"
proof -
  let ?s = "s_set (state_files ER_STATE_ENCODED) ER_DIRECTION_REBUILD"
  let ?r = "\<lparr>NAME = ''ckpt'', DIRECTION = ER_DIRECTION_REBUILD, STRUCT = rank0,
             SCHEME = None, FILE = []\<rparr>"
  have look: "kvtree_get_kv_int (er_sets ?s) 1 = Some ?r"
    by (simp add: s_set_eq kvtree_get_kv_int_def)
  have disp: "ER_Dispatch migrate_fails ?s 1 = er_rebuild migrate_fails rank0 ''ckpt.er'' ?s"
    using ER_Dispatch_rebuild [OF look] by simp
  have "er_state_read three_ranks (state_files ER_STATE_ENCODED) ''ckpt.er'' 0 = ER_STATE_ENCODED"
    by (rule read_state_files) simp
  then have rd: "er_state_read (comm_world rank0) (files ?s) ''ckpt.er'' (rank_world rank0)
      = ER_STATE_ENCODED"
    by (simp add: s_set_eq rank0_def)
  have ok: "redset_recover_ok migrate_fails" by (simp add: migrate_fails_def all_ok_def)
  note res = er_rebuild_success [OF rd ok]
  have a: "\<not> shuffile_migrate_ok migrate_fails" by (simp add: migrate_fails_def all_ok_def)
  have b: "fst (ER_Dispatch migrate_fails ?s 1) = ER_SUCCESS" using res(1) disp by simp
  have c: "new_events ?s (snd (ER_Dispatch migrate_fails ?s 1))
     = [StateWrite ''ckpt.er'' ER_STATE_CORRUPT, ShuffileMigrate ''ckpt.er.shuffile'',
        RedsetRecover (build_redset_path ''ckpt.er'' 0), StateWrite ''ckpt.er'' ER_STATE_ENCODED]"
    using res(2) disp by (simp add: build_shuffile_path_def rank0_def)
  have d: "leaders_hold three_ranks ''ckpt.er'' (files (snd (ER_Dispatch migrate_fails ?s 1)))
     (Some [(''STATE'', ER_STATE_ENCODED)])"
    using res(3) disp leaders_hold_write [of three_ranks "''ckpt.er''" ER_STATE_ENCODED]
    by (simp add: rank0_def)
  from d have e: "files (snd (ER_Dispatch migrate_fails ?s 1)) 0 ''ckpt.er.er''
      = Some [(''STATE'', ER_STATE_ENCODED)]"
    and f: "files (snd (ER_Dispatch migrate_fails ?s 1)) 1 ''ckpt.er.er''
      = Some [(''STATE'', ER_STATE_ENCODED)]"
    by (simp_all add: leaders_hold_def three_ranks_def build_er_path_def)
  from a b c e f show ?thesis by blast
qed

text \<open>
  C4. For every set with direction REBUILD: when the state that er_state_read reconciles
  at the start of the dispatch is not ER_STATE_ENCODED, ER_Dispatch returns ER_FAILURE
  and the state after the call is the state before it: no state file is written, and
  neither shuffile_migrate nor redset_recover (nor any other collaborator) is called.
\<close>

theorem ER_Dispatch_rebuild_refuses:
  assumes "kvtree_get_kv_int (er_sets s) set_id = Some r"
    and "DIRECTION r = ER_DIRECTION_REBUILD"
    and "er_state_read (comm_world (STRUCT r)) (files s) (take 1023 (NAME r @ ''.er''))
           (rank_world (STRUCT r)) \<noteq> ER_STATE_ENCODED"
  shows "ER_Dispatch c s set_id = (ER_FAILURE, s)"
  using assms by (simp add: ER_Dispatch_rebuild er_rebuild_refuse)

text \<open>
  Scenario S3: every replica says CORRUPT, and the rebuild of ckpt is refused.
\<close>

theorem ER_Dispatch_rebuild_refuses_witness:
  "ER_Dispatch all_ok (s_set (state_files ER_STATE_CORRUPT) ER_DIRECTION_REBUILD) 1
     = (ER_FAILURE, s_set (state_files ER_STATE_CORRUPT) ER_DIRECTION_REBUILD)"
proof -
  let ?s = "s_set (state_files ER_STATE_CORRUPT) ER_DIRECTION_REBUILD"
  let ?r = "\<lparr>NAME = ''ckpt'', DIRECTION = ER_DIRECTION_REBUILD, STRUCT = rank0,
             SCHEME = None, FILE = []\<rparr>"
  have 1: "kvtree_get_kv_int (er_sets ?s) 1 = Some ?r"
    by (simp add: s_set_eq kvtree_get_kv_int_def)
  have 2: "DIRECTION ?r = ER_DIRECTION_REBUILD" by simp
  have "er_state_read three_ranks (state_files ER_STATE_CORRUPT) ''ckpt.er'' 0 = ER_STATE_CORRUPT"
    by (rule read_state_files) simp
  then have 3: "er_state_read (comm_world (STRUCT ?r)) (files ?s) (take 1023 (NAME ?r @ ''.er''))
           (rank_world (STRUCT ?r)) \<noteq> ER_STATE_ENCODED"
    by (simp add: s_set_eq rank0_def)
  show ?thesis by (rule ER_Dispatch_rebuild_refuses [OF 1 2 3])
qed


text \<open>
  The claim C5 says that shuffile_create is not called once redset_apply has failed.
  In scenario S1 with a failing redset_apply, shuffile_create is called.
\<close>

theorem ER_Dispatch_apply_failure_counterexample:
  "\<not> redset_apply_ok apply_fails \<and>
   ShuffileCreate [''data.0'', ''ckpt.er.0.redset''] ''ckpt.er.shuffile''
     \<in> set (new_events (s_file no_files) (snd (ER_Dispatch apply_fails (s_file no_files) 1)))"
proof -
  let ?s = "s_file no_files"
  let ?r = "\<lparr>NAME = ''ckpt'', DIRECTION = ER_DIRECTION_ENCODE, STRUCT = rank0,
             SCHEME = Some 1, FILE = [''data.0'']\<rparr>"
  have look: "kvtree_get_kv_int (er_sets ?s) 1 = Some ?r"
    by (simp add: s_file_eq kvtree_get_kv_int_def)
  have sch: "kvtree_get_kv_int (er_schemes ?s) 1 = Some \<lparr>PTR = 7\<rparr>"
    by (simp add: s_file_eq kvtree_get_kv_int_def)
  have disp: "ER_Dispatch apply_fails ?s 1
      = er_encode apply_fails rank0 [''data.0''] ''ckpt.er'' 7 ?s"
    using ER_Dispatch_encode [OF look _ _ sch] by simp
  have fails: "\<not> redset_apply_ok apply_fails" by (simp add: apply_fails_def all_ok_def)
  then have "\<not> redset_apply_ok apply_fails \<or> \<not> shuffile_create_ok apply_fails" by simp
  from er_encode_failure(2) [OF this, of rank0 "[''data.0'']" "''ckpt.er''" 7 ?s] disp
  have "new_events ?s (snd (ER_Dispatch apply_fails ?s 1))
     = [StateWrite ''ckpt.er'' ER_STATE_CORRUPT,
        RedsetApply [''data.0''] (build_redset_path ''ckpt.er'' (rank_world rank0)) 7,
        RedsetFilelistGet (build_redset_path ''ckpt.er'' (rank_world rank0)) 7,
        ShuffileCreate ([''data.0''] @ redset_filelist apply_fails)
          (build_shuffile_path ''ckpt.er'')]"
    by simp
  then show ?thesis
    using fails by (simp add: apply_fails_def all_ok_def build_shuffile_path_def)
qed

text \<open>
  C5, amended. During an ENCODE dispatch (the set and its scheme are registered), when
  redset_apply returns non-success, ER_Dispatch returns ER_FAILURE, never writes
  ENCODED, and leaves CORRUPT in every leader's state file; the steps after redset_apply
  are still executed: the calls made are the write of CORRUPT, redset_apply,
  redset_filelist_get and shuffile_create, in this order, and nothing else.
\<close>

theorem ER_Dispatch_apply_failure:
  assumes "kvtree_get_kv_int (er_sets s) set_id = Some r"
    and "DIRECTION r = ER_DIRECTION_ENCODE"
    and "SCHEME r = Some i"
    and "kvtree_get_kv_int (er_schemes s) i = Some sch"
    and "\<not> redset_apply_ok c"
  shows "fst (ER_Dispatch c s set_id) = ER_FAILURE \<and>
    new_events s (snd (ER_Dispatch c s set_id))
      = [StateWrite (take 1023 (NAME r @ ''.er'')) ER_STATE_CORRUPT,
         RedsetApply (FILE r)
           (build_redset_path (take 1023 (NAME r @ ''.er'')) (rank_world (STRUCT r))) (PTR sch),
         RedsetFilelistGet
           (build_redset_path (take 1023 (NAME r @ ''.er'')) (rank_world (STRUCT r))) (PTR sch),
         ShuffileCreate (FILE r @ redset_filelist c)
           (build_shuffile_path (take 1023 (NAME r @ ''.er'')))] \<and>
    leaders_hold (comm_world (STRUCT r)) (take 1023 (NAME r @ ''.er''))
      (files (snd (ER_Dispatch c s set_id))) (Some [(''STATE'', ER_STATE_CORRUPT)])"
proof -
  let ?path = "take 1023 (NAME r @ ''.er'')"
  have disp: "ER_Dispatch c s set_id = er_encode c (STRUCT r) (FILE r) ?path (PTR sch) s"
    using assms(1-4) by (rule ER_Dispatch_encode)
  from assms(5) have f: "\<not> redset_apply_ok c \<or> \<not> shuffile_create_ok c" by simp
  note res = er_encode_failure [OF f, of "STRUCT r" "FILE r" ?path "PTR sch" s]
  have 1: "fst (ER_Dispatch c s set_id) = ER_FAILURE" using res(1) disp by simp
  have 2: "new_events s (snd (ER_Dispatch c s set_id))
      = [StateWrite ?path ER_STATE_CORRUPT,
         RedsetApply (FILE r) (build_redset_path ?path (rank_world (STRUCT r))) (PTR sch),
         RedsetFilelistGet (build_redset_path ?path (rank_world (STRUCT r))) (PTR sch),
         ShuffileCreate (FILE r @ redset_filelist c) (build_shuffile_path ?path)]"
    using res(2) disp by simp
  have 3: "leaders_hold (comm_world (STRUCT r)) ?path
      (files (snd (ER_Dispatch c s set_id))) (Some [(''STATE'', ER_STATE_CORRUPT)])"
    using res(3) disp leaders_hold_write by simp
  from 1 2 3 show ?thesis by blast
qed

text \<open>
  Scenario S1 with a failing redset_apply.
\<close>

theorem ER_Dispatch_apply_failure_witness:
  "fst (ER_Dispatch apply_fails (s_file no_files) 1) = ER_FAILURE \<and>
   new_events (s_file no_files) (snd (ER_Dispatch apply_fails (s_file no_files) 1))
     = [StateWrite ''ckpt.er'' ER_STATE_CORRUPT,
        RedsetApply [''data.0''] (build_redset_path ''ckpt.er'' 0) 7,
        RedsetFilelistGet (build_redset_path ''ckpt.er'' 0) 7,
        ShuffileCreate [''data.0'', ''ckpt.er.0.redset''] ''ckpt.er.shuffile''] \<and>
   leaders_hold three_ranks ''ckpt.er''
     (files (snd (ER_Dispatch apply_fails (s_file no_files) 1)))
     (Some [(''STATE'', ER_STATE_CORRUPT)])"
proof -
  let ?s = "s_file no_files"
  let ?r = "\<lparr>NAME = ''ckpt'', DIRECTION = ER_DIRECTION_ENCODE, STRUCT = rank0,
             SCHEME = Some 1, FILE = [''data.0'']\<rparr>"
  have look: "kvtree_get_kv_int (er_sets ?s) 1 = Some ?r"
    by (simp add: s_file_eq kvtree_get_kv_int_def)
  have dir: "DIRECTION ?r = ER_DIRECTION_ENCODE" by simp
  have sid: "SCHEME ?r = Some 1" by simp
  have sch: "kvtree_get_kv_int (er_schemes ?s) 1 = Some \<lparr>PTR = 7\<rparr>"
    by (simp add: s_file_eq kvtree_get_kv_int_def)
  have fails: "\<not> redset_apply_ok apply_fails" by (simp add: apply_fails_def all_ok_def)
  from ER_Dispatch_apply_failure [OF look dir sid sch fails] show ?thesis
    by (simp add: rank0_def apply_fails_def all_ok_def build_shuffile_path_def)
qed


text \<open>
  The claim C6 says that a REMOVE dispatch whose collaborators fail returns FAIL and
  leaves the state file at CORRUPT. With every collaborator failing, the removal of
  ckpt returns ER_SUCCESS and the state file of storage group 0 is gone.
\<close>

theorem ER_Dispatch_remove_counterexample:
  "\<not> shuffile_remove_ok all_fail \<and> \<not> redset_recover_ok all_fail \<and>
   \<not> redset_unapply_ok all_fail \<and>
   fst (ER_Dispatch all_fail (s_set (state_files ER_STATE_ENCODED) ER_DIRECTION_REMOVE) 1)
     = ER_SUCCESS \<and>
   files (snd (ER_Dispatch all_fail (s_set (state_files ER_STATE_ENCODED) ER_DIRECTION_REMOVE) 1))
     0 ''ckpt.er.er'' = None"
proof -
  let ?s = "s_set (state_files ER_STATE_ENCODED) ER_DIRECTION_REMOVE"
  let ?r = "\<lparr>NAME = ''ckpt'', DIRECTION = ER_DIRECTION_REMOVE, STRUCT = rank0,
             SCHEME = None, FILE = []\<rparr>"
  have look: "kvtree_get_kv_int (er_sets ?s) 1 = Some ?r"
    by (simp add: s_set_eq kvtree_get_kv_int_def)
  have disp: "ER_Dispatch all_fail ?s 1 = er_remove all_fail rank0 ''ckpt.er'' ?s"
    using ER_Dispatch_remove [OF look] by simp
  have "leaders_hold three_ranks ''ckpt.er'' (files (snd (ER_Dispatch all_fail ?s 1))) None"
    using er_remove_result(3) [of all_fail rank0 "''ckpt.er''" ?s] disp leaders_hold_unlink
    by (simp add: rank0_def)
  then have "files (snd (ER_Dispatch all_fail ?s 1)) 0 ''ckpt.er.er'' = None"
    by (simp add: leaders_hold_def three_ranks_def build_er_path_def)
  then show ?thesis
    using er_remove_result(1) [of all_fail rank0 "''ckpt.er''" ?s] disp
    by (simp add: all_fail_def)
qed

text \<open>
  C6, amended. For a registered set: in direction ENCODE (scheme registered), when
  redset_apply or shuffile_create returns non-success, and in direction REBUILD (the
  reconciled state being ENCODED), when redset_recover returns non-success, ER_Dispatch
  returns ER_FAILURE and every leader's state file says CORRUPT. In direction REMOVE
  ER_Dispatch returns ER_SUCCESS whatever the collaborators return, and no leader has a
  state file afterwards.
\<close>

theorem ER_Dispatch_collaborator_failure:
  assumes "kvtree_get_kv_int (er_sets s) set_id = Some r"
  shows
   "(DIRECTION r = ER_DIRECTION_ENCODE \<and> SCHEME r = Some i \<and>
     kvtree_get_kv_int (er_schemes s) i = Some sch \<and>
     (\<not> redset_apply_ok c \<or> \<not> shuffile_create_ok c)
     \<longrightarrow> fst (ER_Dispatch c s set_id) = ER_FAILURE \<and>
         leaders_hold (comm_world (STRUCT r)) (take 1023 (NAME r @ ''.er''))
           (files (snd (ER_Dispatch c s set_id))) (Some [(''STATE'', ER_STATE_CORRUPT)])) \<and>
    (DIRECTION r = ER_DIRECTION_REBUILD \<and>
     er_state_read (comm_world (STRUCT r)) (files s) (take 1023 (NAME r @ ''.er''))
       (rank_world (STRUCT r)) = ER_STATE_ENCODED \<and>
     \<not> redset_recover_ok c
     \<longrightarrow> fst (ER_Dispatch c s set_id) = ER_FAILURE \<and>
         leaders_hold (comm_world (STRUCT r)) (take 1023 (NAME r @ ''.er''))
           (files (snd (ER_Dispatch c s set_id))) (Some [(''STATE'', ER_STATE_CORRUPT)])) \<and>
    (DIRECTION r = ER_DIRECTION_REMOVE
     \<longrightarrow> fst (ER_Dispatch c s set_id) = ER_SUCCESS \<and>
         leaders_hold (comm_world (STRUCT r)) (take 1023 (NAME r @ ''.er''))
           (files (snd (ER_Dispatch c s set_id))) None)"
proof (intro conjI impI)
  let ?path = "take 1023 (NAME r @ ''.er'')"
  {
    assume a: "DIRECTION r = ER_DIRECTION_ENCODE \<and> SCHEME r = Some i \<and>
      kvtree_get_kv_int (er_schemes s) i = Some sch \<and>
      (\<not> redset_apply_ok c \<or> \<not> shuffile_create_ok c)"
    then have disp: "ER_Dispatch c s set_id = er_encode c (STRUCT r) (FILE r) ?path (PTR sch) s"
      using assms by (intro ER_Dispatch_encode) auto
    from a have f: "\<not> redset_apply_ok c \<or> \<not> shuffile_create_ok c" by simp
    note res = er_encode_failure [OF f, of "STRUCT r" "FILE r" ?path "PTR sch" s]
    show "fst (ER_Dispatch c s set_id) = ER_FAILURE" using res(1) disp by simp
    show "leaders_hold (comm_world (STRUCT r)) ?path
      (files (snd (ER_Dispatch c s set_id))) (Some [(''STATE'', ER_STATE_CORRUPT)])"
      using res(3) disp leaders_hold_write by simp
  }
  {
    assume a: "DIRECTION r = ER_DIRECTION_REBUILD \<and>
      er_state_read (comm_world (STRUCT r)) (files s) ?path (rank_world (STRUCT r))
        = ER_STATE_ENCODED \<and> \<not> redset_recover_ok c"
    then have disp: "ER_Dispatch c s set_id = er_rebuild c (STRUCT r) ?path s"
      using assms by (intro ER_Dispatch_rebuild) auto
    from a have rd: "er_state_read (comm_world (STRUCT r)) (files s) ?path
        (rank_world (STRUCT r)) = ER_STATE_ENCODED" and f: "\<not> redset_recover_ok c"
      by simp_all
    note res = er_rebuild_failure [OF rd f]
    show "fst (ER_Dispatch c s set_id) = ER_FAILURE" using res(1) disp by simp
    show "leaders_hold (comm_world (STRUCT r)) ?path
      (files (snd (ER_Dispatch c s set_id))) (Some [(''STATE'', ER_STATE_CORRUPT)])"
      using res(3) disp leaders_hold_write by simp
  }
  {
    assume a: "DIRECTION r = ER_DIRECTION_REMOVE"
    then have disp: "ER_Dispatch c s set_id = er_remove c (STRUCT r) ?path s"
      using assms by (intro ER_Dispatch_remove) auto
    show "fst (ER_Dispatch c s set_id) = ER_SUCCESS"
      using er_remove_result(1) disp by simp
    show "leaders_hold (comm_world (STRUCT r)) ?path (files (snd (ER_Dispatch c s set_id))) None"
      using er_remove_result(3) [of c "STRUCT r" ?path s] disp leaders_hold_unlink by simp
  }
qed

text \<open>
  The three directions on the set ckpt, with failing collaborators.
\<close>

theorem ER_Dispatch_collaborator_failure_witness:
  "(fst (ER_Dispatch all_fail (s_file no_files) 1) = ER_FAILURE \<and>
    leaders_hold three_ranks ''ckpt.er'' (files (snd (ER_Dispatch all_fail (s_file no_files) 1)))
      (Some [(''STATE'', ER_STATE_CORRUPT)])) \<and>
   (fst (ER_Dispatch recover_fails
           (s_set (state_files ER_STATE_ENCODED) ER_DIRECTION_REBUILD) 1) = ER_FAILURE \<and>
    leaders_hold three_ranks ''ckpt.er''
      (files (snd (ER_Dispatch recover_fails
           (s_set (state_files ER_STATE_ENCODED) ER_DIRECTION_REBUILD) 1)))
      (Some [(''STATE'', ER_STATE_CORRUPT)])) \<and>
   (fst (ER_Dispatch all_fail
           (s_set (state_files ER_STATE_ENCODED) ER_DIRECTION_REMOVE) 1) = ER_SUCCESS \<and>
    leaders_hold three_ranks ''ckpt.er''
      (files (snd (ER_Dispatch all_fail
           (s_set (state_files ER_STATE_ENCODED) ER_DIRECTION_REMOVE) 1))) None)"
proof -
  let ?se = "s_file no_files"
  let ?re = "\<lparr>NAME = ''ckpt'', DIRECTION = ER_DIRECTION_ENCODE, STRUCT = rank0,
             SCHEME = Some 1, FILE = [''data.0'']\<rparr>"
  have look_e: "kvtree_get_kv_int (er_sets ?se) 1 = Some ?re"
    by (simp add: s_file_eq kvtree_get_kv_int_def)
  have sch: "kvtree_get_kv_int (er_schemes ?se) 1 = Some \<lparr>PTR = 7\<rparr>"
    by (simp add: s_file_eq kvtree_get_kv_int_def)
  have e: "fst (ER_Dispatch all_fail ?se 1) = ER_FAILURE \<and>
    leaders_hold three_ranks ''ckpt.er'' (files (snd (ER_Dispatch all_fail ?se 1)))
      (Some [(''STATE'', ER_STATE_CORRUPT)])"
    using ER_Dispatch_collaborator_failure [OF look_e, of 1 "\<lparr>PTR = 7\<rparr>" all_fail] sch
    by (simp add: rank0_def all_fail_def)
  let ?sb = "s_set (state_files ER_STATE_ENCODED) ER_DIRECTION_REBUILD"
  let ?rb = "\<lparr>NAME = ''ckpt'', DIRECTION = ER_DIRECTION_REBUILD, STRUCT = rank0,
             SCHEME = None, FILE = []\<rparr>"
  have look_b: "kvtree_get_kv_int (er_sets ?sb) 1 = Some ?rb"
    by (simp add: s_set_eq kvtree_get_kv_int_def)
  have "er_state_read three_ranks (state_files ER_STATE_ENCODED) ''ckpt.er'' 0 = ER_STATE_ENCODED"
    by (rule read_state_files) simp
  then have rd: "er_state_read (comm_world (STRUCT ?rb)) (files ?sb)
      (take 1023 (NAME ?rb @ ''.er'')) (rank_world (STRUCT ?rb)) = ER_STATE_ENCODED"
    by (simp add: s_set_eq rank0_def)
  have b: "fst (ER_Dispatch recover_fails ?sb 1) = ER_FAILURE \<and>
    leaders_hold three_ranks ''ckpt.er'' (files (snd (ER_Dispatch recover_fails ?sb 1)))
      (Some [(''STATE'', ER_STATE_CORRUPT)])"
    using ER_Dispatch_collaborator_failure [OF look_b, of 0 "\<lparr>PTR = 7\<rparr>" recover_fails] rd
    by (simp add: rank0_def recover_fails_def all_ok_def)
  let ?sr = "s_set (state_files ER_STATE_ENCODED) ER_DIRECTION_REMOVE"
  let ?rr = "\<lparr>NAME = ''ckpt'', DIRECTION = ER_DIRECTION_REMOVE, STRUCT = rank0,
             SCHEME = None, FILE = []\<rparr>"
  have look_r: "kvtree_get_kv_int (er_sets ?sr) 1 = Some ?rr"
    by (simp add: s_set_eq kvtree_get_kv_int_def)
  have r: "fst (ER_Dispatch all_fail ?sr 1) = ER_SUCCESS \<and>
    leaders_hold three_ranks ''ckpt.er'' (files (snd (ER_Dispatch all_fail ?sr 1))) None"
    using ER_Dispatch_collaborator_failure [OF look_r, of 0 "\<lparr>PTR = 7\<rparr>" all_fail]
    by (simp add: rank0_def)
  from e b r show ?thesis by blast
qed

section \<open>Schemes, sets and ER_Finalize\<close>

text \<open>
  C3. The claim says that a rejected pair of block counts gives the sentinel -1. The
  two early returns of ER_Create_Scheme return ER_FAILURE, which is 1: for no data
  blocks (0, 0) and for an unsupported combination (3, 2) the result is 1, in every
  state, and the state is unchanged.
\<close>

theorem ER_Create_Scheme_rejects_with_1:
  "ER_Create_Scheme c s comm fd 0 0 = (1, s) \<and> ER_Create_Scheme c s comm fd 3 2 = (1, s) \<and>
   ER_FAILURE = 1 \<and> ER_FAILURE \<noteq> - 1"
  by (simp add: ER_Create_Scheme_def encoding_type_def)

text \<open>
  The pairs that are accepted are the ones the claim lists, and an accepted call
  returns the incremented counter.
\<close>

lemma encoding_type_supported:
  "1 \<le> d \<Longrightarrow> encoding_type d e \<noteq> None \<longleftrightarrow> e = 0 \<or> e = d \<or> (e = 1 \<and> 2 \<le> d)"
  by (auto simp: encoding_type_def)

lemma ER_Create_Scheme_accepts:
  assumes "redset_create_ok c" "1 \<le> d" "e = 0 \<or> e = d \<or> (e = 1 \<and> 2 \<le> d)"
  shows "fst (ER_Create_Scheme c s comm fd d e) = int_incr (er_scheme_counter s)"
    and "er_scheme_counter (snd (ER_Create_Scheme c s comm fd d e))
           = int_incr (er_scheme_counter s)"
  using assms by (auto simp: ER_Create_Scheme_def encoding_type_def Let_def)

lemma ER_Create_Scheme_rejects:
  assumes "\<not> (1 \<le> d \<and> (e = 0 \<or> e = d \<or> (e = 1 \<and> 2 \<le> d)))"
  shows "ER_Create_Scheme c s comm fd d e = (ER_FAILURE, s)"
  using assms by (auto simp: ER_Create_Scheme_def encoding_type_def Let_def)


lemma kvtree_size_None [simp]: "kvtree_size None = 0"
  by (simp add: kvtree_size_def)

lemma kvtree_size_pos:
  "0 < kvtree_size h \<longleftrightarrow> (case h of None \<Rightarrow> False | Some m \<Rightarrow> fmdom m \<noteq> {||})"
proof (cases h)
  case None
  then show ?thesis by (simp add: kvtree_size_def)
next
  case (Some m)
  have "0 < fcard (fmdom m) \<longleftrightarrow> fcard (fmdom m) \<noteq> 0" by (rule neq0_conv [symmetric])
  with Some show ?thesis by (simp add: kvtree_size_def)
qed

lemma kvtree_size_nonneg: "0 \<le> kvtree_size h"
  by (simp add: kvtree_size_def split: option.split)

lemma ER_Finalize_result:
  "fst (ER_Finalize c s) =
     (if 0 < kvtree_size (er_schemes s) \<or> 0 < kvtree_size (er_sets s)
         \<or> \<not> shuffile_finalize_ok c \<or> \<not> redset_finalize_ok c
      then ER_FAILURE else ER_SUCCESS)"
  "trace (snd (ER_Finalize c s)) = trace s @
     (if 0 < kvtree_size (er_schemes s)
      then [ErErr ''ER_Finalize called before schemes freed''] else []) @
     (if 0 < kvtree_size (er_sets s)
      then [ErErr ''ER_Finalize called before sets freed''] else []) @
     [ShuffileFinalize, RedsetFinalize]"
  "er_schemes (snd (ER_Finalize c s)) = None"
  "er_sets (snd (ER_Finalize c s)) = None"
  by (auto simp: ER_Finalize_def Let_def)

lemma ER_Free_Scheme_no_registry:
  "er_schemes s = None \<Longrightarrow> ER_Free_Scheme c s i = (ER_FAILURE, s)"
  by (simp add: ER_Free_Scheme_def kvtree_get_kv_int_def)

lemma ER_Free_no_registry:
  "er_sets s = None \<Longrightarrow> ER_Free s i = (ER_SUCCESS, s)"
  by (simp add: ER_Free_def kvtree_unset_kv_int_def)

text \<open>
  The claim C7 says that after a failing ER_Finalize the live handles can be freed and
  a second ER_Finalize succeeds. ER_Finalize deletes both registries even when it fails,
  so ER_Free_Scheme no longer finds the scheme that was live and returns ER_FAILURE.
\<close>

theorem ER_Finalize_live_handles_counterexample:
  "0 < kvtree_size (er_schemes (s_scheme no_files)) \<and>
   fst (ER_Finalize all_ok (s_scheme no_files)) = ER_FAILURE \<and>
   fst (ER_Free_Scheme all_ok (snd (ER_Finalize all_ok (s_scheme no_files))) 1) = ER_FAILURE"
proof -
  have live: "0 < kvtree_size (er_schemes (s_scheme no_files))"
    by (simp add: s_scheme_eq kvtree_size_pos)
  then have "fst (ER_Finalize all_ok (s_scheme no_files)) = ER_FAILURE"
    by (simp add: ER_Finalize_result(1))
  moreover have "fst (ER_Free_Scheme all_ok (snd (ER_Finalize all_ok (s_scheme no_files))) 1)
      = ER_FAILURE"
    by (simp add: ER_Free_Scheme_no_registry ER_Finalize_result(3))
  ultimately show ?thesis using live by blast
qed

text \<open>
  C7, amended. When a scheme or a set is still registered, ER_Finalize returns
  ER_FAILURE, reports one error per registry that is not empty, still calls
  shuffile_finalize and redset_finalize, and leaves both registries NULL. After that,
  ER_Free_Scheme returns ER_FAILURE for every id, ER_Free returns ER_SUCCESS for every
  id, neither changes the state, and another ER_Finalize returns ER_SUCCESS exactly
  when shuffile_finalize and redset_finalize both succeed.
\<close>

theorem ER_Finalize_live_handles:
  assumes "0 < kvtree_size (er_schemes s) \<or> 0 < kvtree_size (er_sets s)"
  shows "fst (ER_Finalize c s) = ER_FAILURE \<and>
    new_events s (snd (ER_Finalize c s)) =
      (if 0 < kvtree_size (er_schemes s)
       then [ErErr ''ER_Finalize called before schemes freed''] else []) @
      (if 0 < kvtree_size (er_sets s)
       then [ErErr ''ER_Finalize called before sets freed''] else []) @
      [ShuffileFinalize, RedsetFinalize] \<and>
    er_schemes (snd (ER_Finalize c s)) = None \<and>
    er_sets (snd (ER_Finalize c s)) = None \<and>
    ER_Free_Scheme c1 (snd (ER_Finalize c s)) i = (ER_FAILURE, snd (ER_Finalize c s)) \<and>
    ER_Free (snd (ER_Finalize c s)) j = (ER_SUCCESS, snd (ER_Finalize c s)) \<and>
    fst (ER_Finalize c2 (snd (ER_Finalize c s))) =
      (if shuffile_finalize_ok c2 \<and> redset_finalize_ok c2 then ER_SUCCESS else ER_FAILURE)"
proof -
  let ?s' = "snd (ER_Finalize c s)"
  have 1: "fst (ER_Finalize c s) = ER_FAILURE"
    using assms by (auto simp: ER_Finalize_result(1))
  have 2: "new_events s ?s' =
      (if 0 < kvtree_size (er_schemes s)
       then [ErErr ''ER_Finalize called before schemes freed''] else []) @
      (if 0 < kvtree_size (er_sets s)
       then [ErErr ''ER_Finalize called before sets freed''] else []) @
      [ShuffileFinalize, RedsetFinalize]"
    by (rule new_events_append) (rule ER_Finalize_result(2))
  have 3: "er_schemes ?s' = None" and 4: "er_sets ?s' = None"
    by (rule ER_Finalize_result)+
  have 5: "ER_Free_Scheme c1 ?s' i = (ER_FAILURE, ?s')"
    using 3 by (rule ER_Free_Scheme_no_registry)
  have 6: "ER_Free ?s' j = (ER_SUCCESS, ?s')"
    using 4 by (rule ER_Free_no_registry)
  have 7: "fst (ER_Finalize c2 ?s') =
      (if shuffile_finalize_ok c2 \<and> redset_finalize_ok c2 then ER_SUCCESS else ER_FAILURE)"
    by (simp add: ER_Finalize_result(1) 3 4)
  from 1 2 3 4 5 6 7 show ?thesis by blast
qed

text \<open>
  Scenario S6: one scheme is live when ER_Finalize is called.
\<close>

theorem ER_Finalize_live_handles_witness:
  "fst (ER_Finalize all_ok (s_scheme no_files)) = ER_FAILURE \<and>
   new_events (s_scheme no_files) (snd (ER_Finalize all_ok (s_scheme no_files)))
     = [ErErr ''ER_Finalize called before schemes freed'', ShuffileFinalize, RedsetFinalize] \<and>
   ER_Free_Scheme all_ok (snd (ER_Finalize all_ok (s_scheme no_files))) 1
     = (ER_FAILURE, snd (ER_Finalize all_ok (s_scheme no_files))) \<and>
   fst (ER_Finalize all_ok (snd (ER_Finalize all_ok (s_scheme no_files)))) = ER_SUCCESS"
proof -
  have live: "0 < kvtree_size (er_schemes (s_scheme no_files))
      \<or> 0 < kvtree_size (er_sets (s_scheme no_files))"
    by (simp add: s_scheme_eq kvtree_size_pos)
  have none: "\<not> 0 < kvtree_size (er_sets (s_scheme no_files))"
    by (simp add: s_scheme_eq kvtree_size_pos)
  have live1: "0 < kvtree_size (er_schemes (s_scheme no_files))"
    by (simp add: s_scheme_eq kvtree_size_pos)
  from ER_Finalize_live_handles [OF live, of all_ok all_ok 1 0 all_ok] none live1
  show ?thesis by (simp add: all_ok_def)
qed



lemma ER_Add_result:
  assumes "kvtree_get_kv_int (er_sets s) set_id = Some r" and "f \<noteq> []"
  shows "fst (ER_Add s set_id (Some f)) = ER_SUCCESS"
    and "kvtree_get_kv_int (er_sets (snd (ER_Add s set_id (Some f)))) set_id
      = Some (r\<lparr>FILE := (if f \<in> set (FILE r) then FILE r else FILE r @ [f])\<rparr>)"
    and "er_schemes (snd (ER_Add s set_id (Some f))) = er_schemes s"
  using assms
  by (auto simp add: ER_Add_def kvtree_get_kv_int_def kvtree_set_kv_int_def kvtree_set_kv_def
      split: option.splits)


text \<open>
  Repeated calls: paths that are new and different from each other end up behind the
  previous list, in the order in which they were added.
\<close>

lemma ER_Add_all_appends:
  assumes "kvtree_get_kv_int (er_sets s) set_id = Some r"
    and "[] \<notin> set fs" and "distinct fs" and "set fs \<inter> set (FILE r) = {}"
  shows "kvtree_get_kv_int (er_sets (ER_Add_all s set_id fs)) set_id
    = Some (r\<lparr>FILE := FILE r @ fs\<rparr>)"
  using assms
proof (induction fs arbitrary: s r)
  case Nil
  then show ?case by (simp add: ER_Add_all_def)
next
  case (Cons f fs)
  let ?s' = "snd (ER_Add s set_id (Some f))"
  let ?r' = "r\<lparr>FILE := FILE r @ [f]\<rparr>"
  from Cons.prems have "f \<noteq> []" and "f \<notin> set (FILE r)" by auto
  with ER_Add_result(2) [OF Cons.prems(1), of f]
  have look: "kvtree_get_kv_int (er_sets ?s') set_id = Some ?r'" by simp
  have "kvtree_get_kv_int (er_sets (ER_Add_all ?s' set_id fs)) set_id
      = Some (?r'\<lparr>FILE := FILE ?r' @ fs\<rparr>)"
    using Cons.prems by (intro Cons.IH [OF look]) auto
  then show ?case by (simp add: ER_Add_all_def)
qed



text \<open>
  C10. ER_Free returns ER_SUCCESS for every set id, registered or not, and afterwards
  the set registry has no record for that id; ER_Free_Scheme returns ER_FAILURE for a
  scheme id that is not registered, and changes nothing.
\<close>

theorem ER_Free_always_succeeds:
  "fst (ER_Free s set_id) = ER_SUCCESS \<and>
   kvtree_get_kv_int (er_sets (snd (ER_Free s set_id))) set_id = None \<and>
   (kvtree_get_kv_int (er_schemes s) scheme_id = None
      \<longrightarrow> ER_Free_Scheme c s scheme_id = (ER_FAILURE, s))"
  by (simp add: ER_Free_def ER_Free_Scheme_def kvtree_get_kv_int_def kvtree_unset_kv_int_def
      split: option.split)

text \<open>
  The id 5 was never created.
\<close>

theorem ER_Free_always_succeeds_witness:
  "fst (ER_Free (s_init no_files) 5) = ER_SUCCESS \<and>
   kvtree_get_kv_int (er_sets (snd (ER_Free (s_init no_files) 5))) 5 = None \<and>
   ER_Free_Scheme all_ok (s_init no_files) 5 = (ER_FAILURE, s_init no_files)"
proof -
  have "kvtree_get_kv_int (er_schemes (s_init no_files)) 5 = None"
    by (simp add: s_init_eq kvtree_get_kv_int_def)
  with ER_Free_always_succeeds [of "s_init no_files" 5 5 all_ok] show ?thesis by blast
qed

section \<open>Identifiers\<close>

lemma er_encode_counters:
  "er_scheme_counter (snd (er_encode c cs fs path d s)) = er_scheme_counter s"
  "er_set_counter (snd (er_encode c cs fs path d s)) = er_set_counter s"
  by (simp_all add: er_encode_def Let_def)

lemma er_rebuild_counters:
  "er_scheme_counter (snd (er_rebuild c cs path s)) = er_scheme_counter s"
  "er_set_counter (snd (er_rebuild c cs path s)) = er_set_counter s"
  by (simp_all add: er_rebuild_def Let_def)

lemma er_remove_counters:
  "er_scheme_counter (snd (er_remove c cs path s)) = er_scheme_counter s"
  "er_set_counter (snd (er_remove c cs path s)) = er_set_counter s"
  by (simp_all add: er_remove_def Let_def)

lemma ER_Dispatch_counters:
  "er_scheme_counter (snd (ER_Dispatch c s i)) = er_scheme_counter s"
  "er_set_counter (snd (ER_Dispatch c s i)) = er_set_counter s"
  by (simp_all add: ER_Dispatch_def Let_def er_encode_counters er_rebuild_counters
      er_remove_counters split: option.split)

lemma ER_Create_Scheme_counter:
  "er_scheme_counter (snd (ER_Create_Scheme c s comm fd d e)) =
     (if 1 \<le> d \<and> encoding_type d e \<noteq> None \<and> redset_create_ok c
      then int_incr (er_scheme_counter s) else er_scheme_counter s)"
  "er_set_counter (snd (ER_Create_Scheme c s comm fd d e)) = er_set_counter s"
  by (auto simp add: ER_Create_Scheme_def Let_def split: option.split)

lemma ER_Create_counter:
  "er_scheme_counter (snd (ER_Create s cs name dir i)) = er_scheme_counter s"
  "er_set_counter (snd (ER_Create s cs name dir i)) =
     (if name \<noteq> None \<and> name \<noteq> Some [] \<and>
         (dir = ER_DIRECTION_ENCODE \<or> dir = ER_DIRECTION_REBUILD \<or> dir = ER_DIRECTION_REMOVE)
      then int_incr (er_set_counter s) else er_set_counter s)"
  by (auto simp add: ER_Create_def Let_def split: option.split)

text \<open>Which calls advance which counter.\<close>

lemma exec_scheme_counter:
  "er_scheme_counter (snd (exec a s)) =
     (if scheme_created a then int_incr (er_scheme_counter s) else er_scheme_counter s)"
proof (cases a)
  case (Create_Scheme c comm fd d e)
  then show ?thesis by (simp add: ER_Create_Scheme_counter)
next
  case (Dispatch c i)
  then show ?thesis by (simp add: ER_Dispatch_counters)
next
  case (Create cs name dir i)
  then show ?thesis by (simp add: ER_Create_counter)
qed (auto simp: ER_Init_def ER_Finalize_def ER_Free_Scheme_def ER_Add_def ER_Free_def Let_def
      split: option.split)

lemma exec_set_counter:
  "er_set_counter (snd (exec a s)) =
     (if set_counted a then int_incr (er_set_counter s) else er_set_counter s)"
proof (cases a)
  case (Create_Scheme c comm fd d e)
  then show ?thesis by (simp add: ER_Create_Scheme_counter)
next
  case (Dispatch c i)
  then show ?thesis by (simp add: ER_Dispatch_counters)
next
  case (Create cs name dir i)
  then show ?thesis by (simp add: ER_Create_counter)
qed (auto simp: ER_Init_def ER_Finalize_def ER_Free_Scheme_def ER_Add_def ER_Free_def Let_def
      split: option.split)

lemma exec_scheme_created:
  "scheme_created a \<Longrightarrow> fst (exec a s) = int_incr (er_scheme_counter s)"
  by (cases a; auto simp add: ER_Create_Scheme_def Let_def split: option.split)

lemma exec_set_created:
  "set_created a s \<Longrightarrow> fst (exec a s) = int_incr (er_set_counter s)"
  by (cases a; auto simp add: ER_Create_def Let_def split: option.split)

lemma set_created_counted: "set_created a s \<Longrightarrow> set_counted a"
  by (cases a) auto

text \<open>A call that is not successful returns ER_FAILURE or -1.\<close>

lemma Create_Scheme_not_created:
  "\<not> scheme_created (Create_Scheme c comm fd d e) \<Longrightarrow>
   fst (exec (Create_Scheme c comm fd d e) s) = ER_FAILURE
   \<or> fst (exec (Create_Scheme c comm fd d e) s) = - 1"
  by (auto simp add: ER_Create_Scheme_def Let_def split: option.split)

lemma Create_not_created:
  "\<not> set_created (Create cs name dir i) s \<Longrightarrow>
   fst (exec (Create cs name dir i) s) = ER_FAILURE
   \<or> fst (exec (Create cs name dir i) s) = - 1"
  by (auto simp add: ER_Create_def Let_def split: option.split)

text \<open>
  As long as a counter stays below INT_MAX, the ids are above the counter at the start
  and increase.
\<close>

lemma int_incr_below: "x < 2147483647 \<Longrightarrow> int_incr x = x + 1"
  by (simp add: int_incr_def)

lemma scheme_ids_above:
  "er_scheme_counter s + int (length (filter scheme_created as)) \<le> 2147483647 \<Longrightarrow>
   i \<in> set (scheme_ids as s) \<Longrightarrow> er_scheme_counter s < i"
proof (induction as arbitrary: s)
  case Nil
  then show ?case by simp
next
  case (Cons a as)
  show ?case
  proof (cases "scheme_created a")
    case True
    with Cons.prems(1) have below: "er_scheme_counter s < 2147483647" by simp
    have next_counter: "er_scheme_counter (snd (exec a s)) = er_scheme_counter s + 1"
      using True below by (simp add: exec_scheme_counter int_incr_below)
    have ret: "fst (exec a s) = er_scheme_counter s + 1"
      using True below by (simp add: exec_scheme_created int_incr_below)
    from Cons.prems(2) True consider
        (head) "i = fst (exec a s)"
      | (tail) "i \<in> set (scheme_ids as (snd (exec a s)))"
      by auto
    then show ?thesis
    proof cases
      case head
      with ret show ?thesis by simp
    next
      case tail
      have "er_scheme_counter (snd (exec a s)) + int (length (filter scheme_created as))
          \<le> 2147483647"
        using Cons.prems(1) True next_counter by simp
      from Cons.IH [OF this tail] next_counter show ?thesis by simp
    qed
  next
    case False
    then have same: "er_scheme_counter (snd (exec a s)) = er_scheme_counter s"
      by (simp add: exec_scheme_counter)
    from Cons.prems(2) False have tail: "i \<in> set (scheme_ids as (snd (exec a s)))" by simp
    have "er_scheme_counter (snd (exec a s)) + int (length (filter scheme_created as))
        \<le> 2147483647"
      using Cons.prems(1) False same by simp
    from Cons.IH [OF this tail] same show ?thesis by simp
  qed
qed

lemma scheme_ids_sorted:
  "er_scheme_counter s + int (length (filter scheme_created as)) \<le> 2147483647 \<Longrightarrow>
   sorted_wrt (<) (scheme_ids as s)"
proof (induction as arbitrary: s)
  case Nil
  then show ?case by simp
next
  case (Cons a as)
  show ?case
  proof (cases "scheme_created a")
    case True
    with Cons.prems have below: "er_scheme_counter s < 2147483647" by simp
    have next_counter: "er_scheme_counter (snd (exec a s)) = er_scheme_counter s + 1"
      using True below by (simp add: exec_scheme_counter int_incr_below)
    have ret: "fst (exec a s) = er_scheme_counter s + 1"
      using True below by (simp add: exec_scheme_created int_incr_below)
    have bound: "er_scheme_counter (snd (exec a s)) + int (length (filter scheme_created as))
        \<le> 2147483647"
      using Cons.prems True next_counter by simp
    have "\<forall>i \<in> set (scheme_ids as (snd (exec a s))). fst (exec a s) < i"
      using scheme_ids_above [OF bound] ret next_counter by auto
    with True Cons.IH [OF bound] show ?thesis by simp
  next
    case False
    then have same: "er_scheme_counter (snd (exec a s)) = er_scheme_counter s"
      by (simp add: exec_scheme_counter)
    have "er_scheme_counter (snd (exec a s)) + int (length (filter scheme_created as))
        \<le> 2147483647"
      using Cons.prems False same by simp
    from Cons.IH [OF this] False show ?thesis by simp
  qed
qed

lemma set_ids_above:
  "er_set_counter s + int (length (filter set_counted as)) \<le> 2147483647 \<Longrightarrow>
   i \<in> set (set_ids as s) \<Longrightarrow> er_set_counter s < i"
proof (induction as arbitrary: s)
  case Nil
  then show ?case by simp
next
  case (Cons a as)
  show ?case
  proof (cases "set_counted a")
    case True
    with Cons.prems(1) have below: "er_set_counter s < 2147483647" by simp
    have next_counter: "er_set_counter (snd (exec a s)) = er_set_counter s + 1"
      using True below by (simp add: exec_set_counter int_incr_below)
    have bound: "er_set_counter (snd (exec a s)) + int (length (filter set_counted as))
        \<le> 2147483647"
      using Cons.prems(1) True next_counter by simp
    from Cons.prems(2) consider
        (head) "set_created a s" "i = fst (exec a s)"
      | (tail) "i \<in> set (set_ids as (snd (exec a s)))"
      by (auto split: if_splits)
    then show ?thesis
    proof cases
      case head
      then show ?thesis using below by (simp add: exec_set_created int_incr_below)
    next
      case tail
      from Cons.IH [OF bound tail] next_counter show ?thesis by simp
    qed
  next
    case False
    then have same: "er_set_counter (snd (exec a s)) = er_set_counter s"
      by (simp add: exec_set_counter)
    from False have "\<not> set_created a s" using set_created_counted by blast
    with Cons.prems(2) have tail: "i \<in> set (set_ids as (snd (exec a s)))" by simp
    have "er_set_counter (snd (exec a s)) + int (length (filter set_counted as))
        \<le> 2147483647"
      using Cons.prems(1) False same by simp
    from Cons.IH [OF this tail] same show ?thesis by simp
  qed
qed

lemma set_ids_sorted:
  "er_set_counter s + int (length (filter set_counted as)) \<le> 2147483647 \<Longrightarrow>
   sorted_wrt (<) (set_ids as s)"
proof (induction as arbitrary: s)
  case Nil
  then show ?case by simp
next
  case (Cons a as)
  show ?case
  proof (cases "set_counted a")
    case True
    with Cons.prems have below: "er_set_counter s < 2147483647" by simp
    have next_counter: "er_set_counter (snd (exec a s)) = er_set_counter s + 1"
      using True below by (simp add: exec_set_counter int_incr_below)
    have bound: "er_set_counter (snd (exec a s)) + int (length (filter set_counted as))
        \<le> 2147483647"
      using Cons.prems True next_counter by simp
    show ?thesis
    proof (cases "set_created a s")
      case created: True
      have ret: "fst (exec a s) = er_set_counter s + 1"
        using created below by (simp add: exec_set_created int_incr_below)
      have "\<forall>i \<in> set (set_ids as (snd (exec a s))). fst (exec a s) < i"
        using set_ids_above [OF bound] ret next_counter by auto
      with created Cons.IH [OF bound] show ?thesis by simp
    next
      case False
      with Cons.IH [OF bound] show ?thesis by simp
    qed
  next
    case False
    then have same: "er_set_counter (snd (exec a s)) = er_set_counter s"
      by (simp add: exec_set_counter)
    from False have not_created: "\<not> set_created a s" using set_created_counted by blast
    have "er_set_counter (snd (exec a s)) + int (length (filter set_counted as))
        \<le> 2147483647"
      using Cons.prems False same by simp
    from Cons.IH [OF this] not_created show ?thesis by simp
  qed
qed

text \<open>
  The run wrap_calls. Each failing call advances the set counter by one and leaves the
  scheme registry alone; the last call finds the counter at INT_MAX.
\<close>

lemma failing_creates_wrap:
  "er_set_counter s = 2147483647 - int n \<Longrightarrow> kvtree_get_kv_int (er_schemes s) 1 = None \<Longrightarrow>
   set_ids (replicate n (Create rank0 (Some ''ckpt'') ER_DIRECTION_ENCODE 1) @
            [Create rank0 (Some ''ckpt'') ER_DIRECTION_REBUILD 0]) s = [- 2147483648]"
proof (induction n arbitrary: s)
  case 0
  then show ?case by (simp add: ER_Create_def Let_def int_incr_def)
next
  case (Suc n)
  let ?bad = "Create rank0 (Some ''ckpt'') ER_DIRECTION_ENCODE 1"
  let ?s' = "snd (exec ?bad s)"
  have not_created: "\<not> set_created ?bad s" using Suc.prems(2) by simp
  have "er_set_counter ?s' = int_incr (er_set_counter s)"
    by (simp add: ER_Create_counter)
  with Suc.prems(1) have counter: "er_set_counter ?s' = 2147483647 - int n"
    by (simp add: int_incr_def)
  have schemes: "kvtree_get_kv_int (er_schemes ?s') 1 = None"
    using Suc.prems(2) by (simp add: ER_Create_def Let_def)
  from Suc.IH [OF counter schemes] not_created show ?case by simp
qed

text \<open>
  The claim C8 says that the ids of successful calls are at least 1 and increase in
  every sequence of calls. In the run wrap_calls the one successful call of ER_Create
  returns -2147483648.
\<close>

theorem ids_wrap_counterexample:
  "set_ids wrap_calls (er_start no_files) = [- 2147483648]"
proof -
  let ?s = "snd (exec (Init all_ok) (er_start no_files))"
  have counter: "er_set_counter ?s = 2147483647 - int 2147483647"
    by (simp add: ER_Init_def er_start_def Let_def)
  have schemes: "kvtree_get_kv_int (er_schemes ?s) 1 = None"
    by (simp add: ER_Init_def er_start_def Let_def kvtree_new_def kvtree_get_kv_int_def)
  from failing_creates_wrap [OF counter schemes] show ?thesis
    by (simp add: wrap_calls_def)
qed

text \<open>
  C8, amended. In every sequence of calls that a process makes from its start, as long
  as the scheme counter is advanced at most 2^31 - 1 times (once by each successful
  call of ER_Create_Scheme), the ids returned by the successful calls of
  ER_Create_Scheme are at least 1 and each is strictly greater than all returned before
  it; and as long as the set counter is advanced at most 2^31 - 1 times (once by each
  call of ER_Create with a valid name and direction, successful or not), the same holds
  for the ids returned by the successful calls of ER_Create. Within these bounds no id
  is returned twice, whatever calls fail or free handles in between.
\<close>

theorem ids_increase:
  "(length (filter scheme_created calls) \<le> 2147483647 \<longrightarrow>
      sorted_wrt (<) (scheme_ids calls (er_start d)) \<and>
      (\<forall>i \<in> set (scheme_ids calls (er_start d)). 1 \<le> i)) \<and>
   (length (filter set_counted calls) \<le> 2147483647 \<longrightarrow>
      sorted_wrt (<) (set_ids calls (er_start d)) \<and>
      (\<forall>i \<in> set (set_ids calls (er_start d)). 1 \<le> i))"
proof (intro conjI impI)
  have zero: "er_scheme_counter (er_start d) = 0" "er_set_counter (er_start d) = 0"
    by (simp_all add: er_start_def)
  {
    assume "length (filter scheme_created calls) \<le> 2147483647"
    then have bound: "er_scheme_counter (er_start d)
        + int (length (filter scheme_created calls)) \<le> 2147483647"
      using zero by simp
    show "sorted_wrt (<) (scheme_ids calls (er_start d))"
      using bound by (rule scheme_ids_sorted)
    show "\<forall>i \<in> set (scheme_ids calls (er_start d)). 1 \<le> i"
      using scheme_ids_above [OF bound] zero by force
  }
  {
    assume "length (filter set_counted calls) \<le> 2147483647"
    then have bound: "er_set_counter (er_start d)
        + int (length (filter set_counted calls)) \<le> 2147483647"
      using zero by simp
    show "sorted_wrt (<) (set_ids calls (er_start d))"
      using bound by (rule set_ids_sorted)
    show "\<forall>i \<in> set (set_ids calls (er_start d)). 1 \<le> i"
      using set_ids_above [OF bound] zero by force
  }
qed

text \<open>
  The run demo_calls: the schemes get the ids 1 and 2, the sets the ids 2 and 3 (the
  set counter was advanced by the call that failed).
\<close>

lemma demo_scheme_ids: "scheme_ids demo_calls (er_start no_files) = [1, 2]"
  by (simp add: demo_calls_def er_start_def ER_Init_def ER_Create_Scheme_def ER_Free_Scheme_def
      ER_Create_def ER_Free_def encoding_type_def all_ok_def all_fail_def emit_def kvtree_new_def
      kvtree_set_kv_int_def kvtree_get_kv_int_def kvtree_unset_kv_int_def Let_def int_incr_def)

lemma demo_set_ids: "set_ids demo_calls (er_start no_files) = [2, 3]"
  by (simp add: demo_calls_def er_start_def ER_Init_def ER_Create_Scheme_def ER_Free_Scheme_def
      ER_Create_def ER_Free_def encoding_type_def all_ok_def all_fail_def emit_def kvtree_new_def
      kvtree_set_kv_int_def kvtree_get_kv_int_def kvtree_unset_kv_int_def Let_def int_incr_def)

lemma demo_bounds:
  "length (filter scheme_created demo_calls) \<le> 2147483647"
  "length (filter set_counted demo_calls) \<le> 2147483647"
  by (simp_all add: demo_calls_def encoding_type_def all_ok_def all_fail_def)

theorem ids_increase_witness:
  "scheme_ids demo_calls (er_start no_files) = [1, 2] \<and>
   set_ids demo_calls (er_start no_files) = [2, 3] \<and>
   sorted_wrt (<) (scheme_ids demo_calls (er_start no_files)) \<and>
   sorted_wrt (<) (set_ids demo_calls (er_start no_files))"
  using ids_increase [of demo_calls no_files] demo_bounds demo_scheme_ids demo_set_ids
  by simp

end
